theory Spec2Isabelle
  imports Main "HOL-Library.Log_Nat"
begin

section \<open>Python floats (IEEE 754 binary64)\<close>

text \<open>
  \<open>price\<close> is a Python \<open>float\<close> and the cart arithmetic of \<open>compute_cart_summary\<close> is float
  arithmetic. A float is modelled by the rational number it denotes, or one of the special
  values; \<open>Fin 0\<close> is \<open>+0.0\<close> and \<open>NegZero\<close> is \<open>-0.0\<close>. Every arithmetic operation returns
  the exact result rounded to the nearest binary64 value, ties to even (\<open>rnd\<close>).
\<close>

datatype double = Fin rat | NegZero | PInf | NInf | NaN

definition pow2 :: "int \<Rightarrow> rat" where
  "pow2 k = (if 0 \<le> k then 2 ^ nat k else 1 / 2 ^ nat (- k))"

text \<open>\<open>ilog2 a\<close> is the exponent \<open>k\<close> with \<open>2^k \<le> a < 2^(k+1)\<close>, for \<open>a > 0\<close>.\<close>

definition ilog2 :: "rat \<Rightarrow> int" where
  "ilog2 a = (case quotient_of a of (p, q) \<Rightarrow>
     (let k = bitlen p - bitlen q in if pow2 k \<le> a then k else k - 1))"

definition round_half_even :: "rat \<Rightarrow> int" where
  "round_half_even x =
     (let f = \<lfloor>x\<rfloor>; d = x - of_int f
      in if d < 1 / 2 then f else if 1 / 2 < d then f + 1 else if even f then f else f + 1)"

text \<open>
  Rounding to binary64: 53 significant bits, the unit in the last place never below
  \<open>2^-1074\<close> (subnormal numbers), overflow to infinity from \<open>2^1024\<close> on.
\<close>

definition rnd :: "rat \<Rightarrow> double" where
  "rnd r =
     (if r = 0 then Fin 0
      else let a = \<bar>r\<bar>;
               e = max (ilog2 a - 52) (- 1074);
               m = round_half_even (a / pow2 e);
               v = of_int m * pow2 e
           in if pow2 1024 \<le> v then (if 0 < r then PInf else NInf)
              else if m = 0 then (if 0 < r then Fin 0 else NegZero)
              else Fin (if 0 < r then v else - v))"

fun finite_val :: "double \<Rightarrow> rat option" where
  "finite_val (Fin r) = Some r"
| "finite_val NegZero = Some 0"
| "finite_val PInf = None"
| "finite_val NInf = None"
| "finite_val NaN = None"

fun is_neg :: "double \<Rightarrow> bool" where
  "is_neg (Fin r) = (r < 0)"
| "is_neg NegZero = True"
| "is_neg PInf = False"
| "is_neg NInf = True"
| "is_neg NaN = False"

definition signed_zero :: "bool \<Rightarrow> double" where
  "signed_zero s = (if s then NegZero else Fin 0)"

definition signed_inf :: "bool \<Rightarrow> double" where
  "signed_inf s = (if s then NInf else PInf)"

text \<open>Float multiplication \<open>a * b\<close>.\<close>

definition fmul :: "double \<Rightarrow> double \<Rightarrow> double" where
  "fmul a b =
     (if a = NaN \<or> b = NaN then NaN
      else case (finite_val a, finite_val b) of
        (Some x, Some y) \<Rightarrow>
          if x = 0 \<or> y = 0 then signed_zero (is_neg a \<noteq> is_neg b) else rnd (x * y)
      | (Some x, None) \<Rightarrow> if x = 0 then NaN else signed_inf (is_neg a \<noteq> is_neg b)
      | (None, Some y) \<Rightarrow> if y = 0 then NaN else signed_inf (is_neg a \<noteq> is_neg b)
      | (None, None) \<Rightarrow> signed_inf (is_neg a \<noteq> is_neg b))"

text \<open>Float addition \<open>a + b\<close>.\<close>

definition fadd :: "double \<Rightarrow> double \<Rightarrow> double" where
  "fadd a b =
     (if a = NaN \<or> b = NaN then NaN
      else case (finite_val a, finite_val b) of
        (Some x, Some y) \<Rightarrow> if a = NegZero \<and> b = NegZero then NegZero else rnd (x + y)
      | (Some x, None) \<Rightarrow> b
      | (None, Some y) \<Rightarrow> a
      | (None, None) \<Rightarrow> if a = b then a else NaN)"

text \<open>Comparison of a float with an \<open>int\<close>, as in \<open>subtotal == 0\<close> and \<open>subtotal > 25\<close>:
  Python compares the two values exactly; every comparison with NaN is false.\<close>

definition float_eq_int :: "double \<Rightarrow> int \<Rightarrow> bool" where
  "float_eq_int d n = (case finite_val d of Some x \<Rightarrow> x = of_int n | None \<Rightarrow> False)"

definition float_gt_int :: "double \<Rightarrow> int \<Rightarrow> bool" where
  "float_gt_int d n =
     (case d of PInf \<Rightarrow> True | NInf \<Rightarrow> False | NaN \<Rightarrow> False
      | NegZero \<Rightarrow> 0 > n | Fin x \<Rightarrow> x > of_int n)"

text \<open>An exception, carrying the text that \<open>str(e)\<close> gives for it.\<close>

datatype py_exn = OverflowError string | AttributeError string | Exception string

fun exn_str :: "py_exn \<Rightarrow> string" where
  "exn_str (OverflowError msg) = msg"
| "exn_str (AttributeError msg) = msg"
| "exn_str (Exception msg) = msg"

text \<open>\<open>float(n)\<close> for an \<open>int\<close>, as done by \<open>float * int\<close> and \<open>int + float\<close>: the nearest
  float, \<open>OverflowError\<close> when the integer is too large.\<close>

definition int_to_float :: "int \<Rightarrow> py_exn + double" where
  "int_to_float n =
     (case rnd (of_int n) of
        PInf \<Rightarrow> Inl (OverflowError ''int too large to convert to float'')
      | NInf \<Rightarrow> Inl (OverflowError ''int too large to convert to float'')
      | d \<Rightarrow> Inr d)"

text \<open>\<open>round(x, 2)\<close> for a float: the value is written with two decimals, correctly rounded
  (ties to even) from the exact binary value and with the sign of \<open>x\<close>, and the decimal
  string is read back as the nearest float; infinities and NaN round to themselves.\<close>

definition round2 :: "double \<Rightarrow> py_exn + double" where
  "round2 x =
     (case x of
        Fin v \<Rightarrow>
          (let k = round_half_even (\<bar>v\<bar> * 100)
           in if k = 0 then Inr (signed_zero (v < 0))
              else case rnd ((if v < 0 then - 1 else 1) * (of_int k / 100)) of
                PInf \<Rightarrow> Inl (OverflowError ''rounded value too large to represent'')
              | NInf \<Rightarrow> Inl (OverflowError ''rounded value too large to represent'')
              | d \<Rightarrow> Inr d)
      | _ \<Rightarrow> Inr x)"

text \<open>The rationals that are binary64 values are those that rounding leaves unchanged; a
  well-formed float is a special value or a \<open>Fin\<close> of such a rational.\<close>

definition representable :: "rat \<Rightarrow> bool" where
  "representable r \<longleftrightarrow> rnd r = Fin r"

fun wf :: "double \<Rightarrow> bool" where
  "wf (Fin r) = representable r"
| "wf NegZero = True"
| "wf PInf = True"
| "wf NInf = True"
| "wf NaN = True"

section \<open>Stored documents and their normalization\<close>

text \<open>
  A raw record is a Python \<open>dict\<close> from field names to values. The values are those of the
  fields of a product or a user (\<open>None\<close>, \<open>bool\<close>, \<open>int\<close>, \<open>float\<close>, \<open>str\<close>) and those the store
  assigns: the object identifier, represented by its 24-digit hexadecimal text, and naive
  \<open>datetime\<close> timestamps.
\<close>

record datetime =
  year :: nat
  month :: nat
  day :: nat
  hour :: nat
  minute :: nat
  second :: nat
  microsecond :: nat

datatype pyval =
    PNone
  | PBool bool
  | PInt int
  | PFloat double
  | PStr string
  | PObjectId string
  | PDatetime datetime

type_synonym doc = "string \<rightharpoonup> pyval"

fun digits :: "nat \<Rightarrow> string" where
  "digits n =
     (if n < 10 then [char_of (48 + n)] else digits (n div 10) @ [char_of (48 + n mod 10)])"

text \<open>\<open>"%0wd" % n\<close>: decimal digits, padded with zeros on the left to width \<open>w\<close>.\<close>

definition zero_pad :: "nat \<Rightarrow> nat \<Rightarrow> string" where
  "zero_pad w n = replicate (w - length (digits n)) (CHR ''0'') @ digits n"

text \<open>\<open>datetime.isoformat()\<close> of a naive datetime: \<open>YYYY-MM-DDTHH:MM:SS\<close>, followed by
  \<open>.ffffff\<close> when the microsecond is not 0.\<close>

definition isoformat :: "datetime \<Rightarrow> string" where
  "isoformat t =
     zero_pad 4 (year t) @ ''-'' @ zero_pad 2 (month t) @ ''-'' @ zero_pad 2 (day t) @ ''T''
     @ zero_pad 2 (hour t) @ '':'' @ zero_pad 2 (minute t) @ '':'' @ zero_pad 2 (second t)
     @ (if microsecond t = 0 then [] else ''.'' @ zero_pad 6 (microsecond t))"

text \<open>\<open>hasattr(v, "isoformat")\<close>: of the values above only a datetime has the method.\<close>

fun has_isoformat :: "pyval \<Rightarrow> bool" where
  "has_isoformat (PDatetime t) = True"
| "has_isoformat v = False"

fun type_name :: "pyval \<Rightarrow> string" where
  "type_name PNone = ''NoneType''"
| "type_name (PBool b) = ''bool''"
| "type_name (PInt n) = ''int''"
| "type_name (PFloat x) = ''float''"
| "type_name (PStr s) = ''str''"
| "type_name (PObjectId h) = ''ObjectId''"
| "type_name (PDatetime t) = ''datetime.datetime''"

text \<open>The call \<open>v.isoformat()\<close>: \<open>AttributeError\<close> on a value without the method.\<close>

fun call_isoformat :: "pyval \<Rightarrow> py_exn + pyval" where
  "call_isoformat (PDatetime t) = Inr (PStr (isoformat t))"
| "call_isoformat v =
     Inl (AttributeError ([CHR 0x27] @ type_name v @ [CHR 0x27]
            @ '' object has no attribute '' @ [CHR 0x27] @ ''isoformat'' @ [CHR 0x27]))"

text \<open>\<open>str(v)\<close>: a \<open>str\<close> is returned as it is and an object identifier gives its hexadecimal
  text; the text of the other values is the parameter \<open>other\<close>.\<close>

fun py_str :: "(pyval \<Rightarrow> string) \<Rightarrow> pyval \<Rightarrow> string" where
  "py_str other (PStr s) = s"
| "py_str other (PObjectId h) = h"
| "py_str other v = other v"

text \<open>\<open>d.pop(k, default)\<close>: the value removed, or the default, and the dictionary without
  the key.\<close>

definition pop :: "doc \<Rightarrow> string \<Rightarrow> pyval \<Rightarrow> pyval \<times> doc" where
  "pop d k dflt = (case d k of None \<Rightarrow> (dflt, d) | Some v \<Rightarrow> (v, d(k := None)))"

text \<open>
  \<^verbatim>\<open>if k in d:
    d[k] = d[k].isoformat() if hasattr(d[k], "isoformat") else d[k]\<close>
\<close>

definition iso_field :: "string \<Rightarrow> doc \<Rightarrow> py_exn + doc" where
  "iso_field k d =
     (case d k of
        None \<Rightarrow> Inr d
      | Some v \<Rightarrow>
          if has_isoformat v
          then (case call_isoformat v of Inl e \<Rightarrow> Inl e | Inr s \<Rightarrow> Inr (d(k \<mapsto> s)))
          else Inr (d(k \<mapsto> v)))"

text \<open>The body of the loop \<open>for d in docs\<close> of \<open>list_products\<close> and of \<open>list_users\<close> (the
  two bodies are the same text).\<close>

definition normalize_doc :: "(pyval \<Rightarrow> string) \<Rightarrow> doc \<Rightarrow> py_exn + doc" where
  "normalize_doc other d =
     (case pop d ''_id'' (PStr []) of
        (v, d1) \<Rightarrow>
          (let d2 = d1(''id'' \<mapsto> PStr (py_str other v))
           in case iso_field ''created_at'' d2 of
                Inl e \<Rightarrow> Inl e
              | Inr d3 \<Rightarrow> iso_field ''updated_at'' d3))"

text \<open>The loop over the documents: the first exception ends it.\<close>

fun normalize_all :: "(pyval \<Rightarrow> string) \<Rightarrow> doc list \<Rightarrow> py_exn + doc list" where
  "normalize_all other [] = Inr []"
| "normalize_all other (d # ds) =
     (case normalize_doc other d of
        Inl e \<Rightarrow> Inl e
      | Inr d' \<Rightarrow> (case normalize_all other ds of Inl e \<Rightarrow> Inl e | Inr ds' \<Rightarrow> Inr (d' # ds')))"

section \<open>Endpoints over the record store\<close>

text \<open>
  \<open>create_document\<close> and \<open>get_documents\<close> come from the module \<open>database\<close>; they are
  parameters here. A call takes the state of the store and returns the new state with
  either the exception it raised or its result. \<open>except Exception as e\<close> turns the
  exception into \<open>HTTPException(status_code=500, detail=str(e))\<close>.
\<close>

record http_exception =
  status_code :: nat
  detail :: string

record ProductIn =
  title :: string
  description :: "string option"
  product_price :: double
  category :: string
  in_stock :: bool

record UserIn =
  user_name :: string
  email :: string
  address :: string
  age :: "int option"
  is_active :: bool

record created =
  created_id :: pyval
  message :: string

record listing =
  listing_items :: "doc list"

definition create_product ::
  "(string \<Rightarrow> ProductIn \<Rightarrow> 'db \<Rightarrow> (py_exn + pyval) \<times> 'db) \<Rightarrow> ProductIn \<Rightarrow> 'db
     \<Rightarrow> (http_exception + created) \<times> 'db" where
  "create_product create_document payload db =
     (case create_document ''product'' payload db of
        (Inr inserted_id, db') \<Rightarrow>
          (Inr \<lparr>created_id = inserted_id, message = ''Product created''\<rparr>, db')
      | (Inl e, db') \<Rightarrow> (Inl \<lparr>status_code = 500, detail = exn_str e\<rparr>, db'))"

definition create_user ::
  "(string \<Rightarrow> UserIn \<Rightarrow> 'db \<Rightarrow> (py_exn + pyval) \<times> 'db) \<Rightarrow> UserIn \<Rightarrow> 'db
     \<Rightarrow> (http_exception + created) \<times> 'db" where
  "create_user create_document payload db =
     (case create_document ''user'' payload db of
        (Inr inserted_id, db') \<Rightarrow>
          (Inr \<lparr>created_id = inserted_id, message = ''User created''\<rparr>, db')
      | (Inl e, db') \<Rightarrow> (Inl \<lparr>status_code = 500, detail = exn_str e\<rparr>, db'))"

definition list_products ::
  "(string \<Rightarrow> int option \<Rightarrow> 'db \<Rightarrow> (py_exn + doc list) \<times> 'db) \<Rightarrow> (pyval \<Rightarrow> string)
     \<Rightarrow> int option \<Rightarrow> 'db \<Rightarrow> (http_exception + listing) \<times> 'db" where
  "list_products get_documents other limit db =
     (case get_documents ''product'' limit db of
        (Inr docs, db') \<Rightarrow>
          (case normalize_all other docs of
             Inr docs' \<Rightarrow> (Inr \<lparr>listing_items = docs'\<rparr>, db')
           | Inl e \<Rightarrow> (Inl \<lparr>status_code = 500, detail = exn_str e\<rparr>, db'))
      | (Inl e, db') \<Rightarrow> (Inl \<lparr>status_code = 500, detail = exn_str e\<rparr>, db'))"

definition list_users ::
  "(string \<Rightarrow> int option \<Rightarrow> 'db \<Rightarrow> (py_exn + doc list) \<times> 'db) \<Rightarrow> (pyval \<Rightarrow> string)
     \<Rightarrow> int option \<Rightarrow> 'db \<Rightarrow> (http_exception + listing) \<times> 'db" where
  "list_users get_documents other limit db =
     (case get_documents ''user'' limit db of
        (Inr docs, db') \<Rightarrow>
          (case normalize_all other docs of
             Inr docs' \<Rightarrow> (Inr \<lparr>listing_items = docs'\<rparr>, db')
           | Inl e \<Rightarrow> (Inl \<lparr>status_code = 500, detail = exn_str e\<rparr>, db'))
      | (Inl e, db') \<Rightarrow> (Inl \<lparr>status_code = 500, detail = exn_str e\<rparr>, db'))"

section \<open>Cart summary\<close>

record CartItem =
  item_id :: string
  name :: string
  price :: double
  qty :: int

record CartSummary =
  subtotal :: double
  tax :: double
  shipping :: double
  total :: double

text \<open>A Python number: \<open>sum\<close> starts from the \<open>int\<close> 0, so the subtotal of an empty cart is
  an \<open>int\<close>, that of any other cart a \<open>float\<close>.\<close>

datatype pynum = PyInt int | PyFloat double

text \<open>\<open>i.price * i.qty\<close>: the quantity is converted to a float, then multiplied.\<close>

definition item_product :: "CartItem \<Rightarrow> py_exn + double" where
  "item_product i =
     (case int_to_float (qty i) of Inl e \<Rightarrow> Inl e | Inr q \<Rightarrow> Inr (fmul (price i) q))"

fun item_products :: "CartItem list \<Rightarrow> py_exn + double list" where
  "item_products [] = Inr []"
| "item_products (i # is) =
     (case item_product i of
        Inl e \<Rightarrow> Inl e
      | Inr p \<Rightarrow> (case item_products is of Inl e \<Rightarrow> Inl e | Inr ps \<Rightarrow> Inr (p # ps)))"

text \<open>\<open>sum(xs)\<close> for floats: the items are added from left to right, starting from the
  \<open>int\<close> 0. (CPython from 3.12 on also carries a compensation term for the rounding errors
  of the additions; it is zero whenever the additions are exact, and absent for a single
  item.)\<close>

fun py_sum :: "double list \<Rightarrow> pynum" where
  "py_sum [] = PyInt 0"
| "py_sum (x # xs) = PyFloat (foldl fadd (fadd (Fin 0) x) xs)"

text \<open>\<open>subtotal = sum(i.price * i.qty for i in items)\<close>\<close>

definition compute_subtotal :: "CartItem list \<Rightarrow> py_exn + pynum" where
  "compute_subtotal items =
     (case item_products items of Inl e \<Rightarrow> Inl e | Inr ps \<Rightarrow> Inr (py_sum ps))"

text \<open>\<open>x == n\<close> and \<open>x > n\<close> for a number \<open>x\<close> and an \<open>int\<close> literal \<open>n\<close>.\<close>

fun num_eq_int :: "pynum \<Rightarrow> int \<Rightarrow> bool" where
  "num_eq_int (PyInt k) n = (k = n)"
| "num_eq_int (PyFloat d) n = float_eq_int d n"

fun num_gt_int :: "pynum \<Rightarrow> int \<Rightarrow> bool" where
  "num_gt_int (PyInt k) n = (k > n)"
| "num_gt_int (PyFloat d) n = float_gt_int d n"

text \<open>The conversion of a number to a float: before an operation with a float, and for a
  \<open>float\<close> field of \<open>CartSummary\<close> (the only \<open>int\<close> that reaches a field is the 0 of the
  empty cart).\<close>

fun to_float :: "pynum \<Rightarrow> py_exn + double" where
  "to_float (PyInt k) = int_to_float k"
| "to_float (PyFloat d) = Inr d"

text \<open>\<open>x * y\<close> and \<open>x + y\<close> for a number \<open>x\<close> and a float \<open>y\<close>.\<close>

definition num_mul :: "pynum \<Rightarrow> double \<Rightarrow> py_exn + double" where
  "num_mul x y = (case to_float x of Inl e \<Rightarrow> Inl e | Inr d \<Rightarrow> Inr (fmul d y))"

definition num_add :: "pynum \<Rightarrow> double \<Rightarrow> py_exn + double" where
  "num_add x y = (case to_float x of Inl e \<Rightarrow> Inl e | Inr d \<Rightarrow> Inr (fadd d y))"

text \<open>\<open>round(x, 2)\<close> for a number: an \<open>int\<close> is returned as it is.\<close>

fun num_round2 :: "pynum \<Rightarrow> py_exn + pynum" where
  "num_round2 (PyInt k) = Inr (PyInt k)"
| "num_round2 (PyFloat d) = (case round2 d of Inl e \<Rightarrow> Inl e | Inr r \<Rightarrow> Inr (PyFloat r))"

text \<open>The float literals of \<open>compute_cart_summary\<close>.\<close>

definition lit_0_0 :: double where "lit_0_0 = Fin 0"
definition lit_4_99 :: double where "lit_4_99 = rnd (499 / 100)"
definition lit_0_07 :: double where "lit_0_07 = rnd (7 / 100)"

text \<open>Sequencing: an exception ends the computation.\<close>

definition bind :: "py_exn + 'a \<Rightarrow> ('a \<Rightarrow> py_exn + 'b) \<Rightarrow> py_exn + 'b" where
  "bind m f = (case m of Inl e \<Rightarrow> Inl e | Inr x \<Rightarrow> f x)"

text \<open>The statements of \<open>compute_cart_summary\<close> after the subtotal, in the source's order:
  \<^verbatim>\<open>shipping = 0.0 if subtotal == 0 or subtotal > 25 else 4.99
tax = round(subtotal * 0.07, 2)
total = round(subtotal + tax + shipping, 2)
return CartSummary(subtotal=round(subtotal, 2), tax=tax,
                   shipping=round(shipping, 2), total=total)\<close>\<close>

definition unrounded_shipping :: "pynum \<Rightarrow> double" where
  "unrounded_shipping sub = (if num_eq_int sub 0 \<or> num_gt_int sub 25 then lit_0_0 else lit_4_99)"

definition summary_of :: "pynum \<Rightarrow> py_exn + CartSummary" where
  "summary_of sub =
     (let ship = unrounded_shipping sub
      in bind (num_mul sub lit_0_07) (\<lambda>t0.
         bind (round2 t0) (\<lambda>tx.
         bind (num_add sub tx) (\<lambda>s1.
         bind (round2 (fadd s1 ship)) (\<lambda>tot.
         bind (num_round2 sub) (\<lambda>rsub.
         bind (round2 ship) (\<lambda>rship.
         bind (to_float rsub) (\<lambda>fsub.
           Inr \<lparr>subtotal = fsub, tax = tx, shipping = rship, total = tot\<rparr>))))))))"

definition compute_cart_summary :: "CartItem list \<Rightarrow> py_exn + CartSummary" where
  "compute_cart_summary items =
     (case compute_subtotal items of Inl e \<Rightarrow> Inl e | Inr sub \<Rightarrow> summary_of sub)"

section \<open>The exact subtotal\<close>

text \<open>
  The sum \<open>\<Sum> price_i \<times> qty_i\<close> of the specification, in exact rational arithmetic over the
  values of the prices; it is not defined when a price is an infinity or NaN.
\<close>

definition item_value :: "CartItem \<Rightarrow> rat option" where
  "item_value i = (case finite_val (price i) of None \<Rightarrow> None | Some p \<Rightarrow> Some (p * of_int (qty i)))"

fun exact_subtotal :: "CartItem list \<Rightarrow> rat option" where
  "exact_subtotal [] = Some 0"
| "exact_subtotal (i # is) =
     (case (item_value i, exact_subtotal is) of
        (Some v, Some s) \<Rightarrow> Some (v + s)
      | _ \<Rightarrow> None)"

text \<open>The number that the subtotal computed by the code denotes, when it is computed and
  finite.\<close>

definition subtotal_value :: "CartItem list \<Rightarrow> rat option" where
  "subtotal_value items =
     (case compute_subtotal items of
        Inl e \<Rightarrow> None
      | Inr (PyInt k) \<Rightarrow> Some (of_int k)
      | Inr (PyFloat d) \<Rightarrow> finite_val d)"

text \<open>A cart on which float arithmetic commits no rounding error: every quantity, every
  product and every partial sum, taken from left to right, is a binary64 value.\<close>

definition exact_item :: "CartItem \<Rightarrow> bool" where
  "exact_item i =
     (case finite_val (price i) of
        None \<Rightarrow> False
      | Some p \<Rightarrow> representable (of_int (qty i)) \<and> representable (p * of_int (qty i)))"

fun exact_sums :: "rat \<Rightarrow> CartItem list \<Rightarrow> bool" where
  "exact_sums acc [] = True"
| "exact_sums acc (i # is) =
     (case item_value i of
        None \<Rightarrow> False
      | Some v \<Rightarrow> exact_item i \<and> representable (acc + v) \<and> exact_sums (acc + v) is)"

text \<open>\<open>x < n\<close> for a number \<open>x\<close> and an \<open>int\<close> literal \<open>n\<close>.\<close>

definition float_lt_int :: "double \<Rightarrow> int \<Rightarrow> bool" where
  "float_lt_int d n =
     (case d of PInf \<Rightarrow> False | NInf \<Rightarrow> True | NaN \<Rightarrow> False
      | NegZero \<Rightarrow> 0 < n | Fin x \<Rightarrow> x < of_int n)"

fun num_lt_int :: "pynum \<Rightarrow> int \<Rightarrow> bool" where
  "num_lt_int (PyInt k) n = (k < n)"
| "num_lt_int (PyFloat d) n = float_lt_int d n"

section \<open>Properties of the normalization\<close>

lemma has_isoformat_iff: "has_isoformat v \<longleftrightarrow> (\<exists>t. v = PDatetime t)"
  by (cases v) simp_all

lemma iso_field_eq:
  "iso_field k d =
     Inr (case d k of Some (PDatetime t) \<Rightarrow> d(k \<mapsto> PStr (isoformat t)) | _ \<Rightarrow> d)"
proof (cases "d k")
  case None
  then show ?thesis by (simp add: iso_field_def)
next
  case (Some v)
  then have "d(k \<mapsto> v) = d" by (simp add: fun_upd_idem)
  with Some show ?thesis
    by (cases v) (simp_all add: iso_field_def)
qed

lemma iso_field_total: "\<exists>d'. iso_field k d = Inr d'"
  by (simp add: iso_field_eq)

lemma iso_field_lookup:
  assumes "iso_field k d = Inr d'"
  shows "d' j = (if j = k
                 then (case d k of Some (PDatetime t) \<Rightarrow> Some (PStr (isoformat t)) | x \<Rightarrow> x)
                 else d j)"
proof (cases "d k")
  case None
  with assms show ?thesis by (simp add: iso_field_eq)
next
  case (Some v)
  with assms show ?thesis by (cases v) (auto simp: iso_field_eq)
qed

lemma pop_id:
  "pop d ''_id'' (PStr []) =
     ((case d ''_id'' of None \<Rightarrow> PStr [] | Some v \<Rightarrow> v), d(''_id'' := None))"
  by (cases "d ''_id''") (simp_all add: pop_def fun_upd_idem)

lemma py_str_default:
  "py_str other (case x of None \<Rightarrow> PStr [] | Some v \<Rightarrow> v)
     = (case x of None \<Rightarrow> [] | Some v \<Rightarrow> py_str other v)"
  by (cases x) simp_all

lemma normalize_doc_total: "\<exists>d'. normalize_doc other d = Inr d'"
proof -
  obtain d3 where "iso_field ''created_at''
      ((d(''_id'' := None))(''id'' \<mapsto>
         PStr (py_str other (case d ''_id'' of None \<Rightarrow> PStr [] | Some v \<Rightarrow> v)))) = Inr d3"
    using iso_field_total by blast
  then show ?thesis
    using iso_field_total [of "''updated_at''" d3] by (simp add: normalize_doc_def pop_id)
qed

lemma normalize_doc_lookup:
  assumes "normalize_doc other d = Inr d'"
  shows "d' k =
    (if k = ''_id'' then None
     else if k = ''id''
       then Some (PStr (case d ''_id'' of None \<Rightarrow> [] | Some v \<Rightarrow> py_str other v))
     else if k = ''created_at'' \<or> k = ''updated_at''
       then (case d k of Some (PDatetime t) \<Rightarrow> Some (PStr (isoformat t)) | x \<Rightarrow> x)
     else d k)"
proof -
  define d2 where "d2 = (d(''_id'' := None))(''id'' \<mapsto>
      PStr (case d ''_id'' of None \<Rightarrow> [] | Some v \<Rightarrow> py_str other v))"
  obtain d3 where d3: "iso_field ''created_at'' d2 = Inr d3"
    using iso_field_total by blast
  with assms have d4: "iso_field ''updated_at'' d3 = Inr d'"
    by (simp add: normalize_doc_def pop_id py_str_default d2_def)
  have l2: "d2 j =
      (if j = ''id''
       then Some (PStr (case d ''_id'' of None \<Rightarrow> [] | Some v \<Rightarrow> py_str other v))
       else if j = ''_id'' then None else d j)" for j
    by (simp add: d2_def)
  note l3 = iso_field_lookup [OF d3]
  note l4 = iso_field_lookup [OF d4]
  show ?thesis
    by (simp add: l4 l3 l2)
qed

lemma normalize_all_total: "\<exists>ds'. normalize_all other ds = Inr ds'"
proof (induction ds)
  case Nil
  show ?case by simp
next
  case (Cons d ds)
  obtain d' where "normalize_doc other d = Inr d'"
    using normalize_doc_total by blast
  with Cons show ?case by auto
qed

lemma isoformat_example:
  "isoformat \<lparr>year = 2024, month = 3, day = 2, hour = 3, minute = 4, second = 5,
      microsecond = 0\<rparr> = ''2024-03-02T03:04:05''"
  by code_simp

text \<open>
  C4. For every raw record the normalization returns a record without the key \<open>_id\<close> and
  with the key \<open>id\<close>, whose value is the string form of the value that was under \<open>_id\<close>,
  or the empty string when the raw record has no \<open>_id\<close>.
\<close>

theorem normalize_doc_identifier:
  "\<exists>d'. normalize_doc other d = Inr d' \<and> d' ''_id'' = None \<and>
        d' ''id'' = Some (PStr (case d ''_id'' of None \<Rightarrow> [] | Some v \<Rightarrow> py_str other v))"
proof -
  obtain d' where d': "normalize_doc other d = Inr d'"
    using normalize_doc_total by blast
  from normalize_doc_lookup [OF d', of "''_id''"] normalize_doc_lookup [OF d', of "''id''"] d'
  show ?thesis by simp
qed

theorem normalize_doc_identifier_witness:
  "(\<exists>d'. normalize_doc (\<lambda>v. []) [''_id'' \<mapsto> PObjectId ''65f0c1a2b3d4e5f607182930'',
              ''title'' \<mapsto> PStr ''Milk''] = Inr d'
        \<and> d' ''_id'' = None \<and> d' ''id'' = Some (PStr ''65f0c1a2b3d4e5f607182930''))
   \<and> (\<exists>d'. normalize_doc (\<lambda>v. []) [''title'' \<mapsto> PStr ''Milk''] = Inr d'
        \<and> d' ''_id'' = None \<and> d' ''id'' = Some (PStr []))"
  using normalize_doc_identifier [of "\<lambda>v. []"
      "[''_id'' \<mapsto> PObjectId ''65f0c1a2b3d4e5f607182930'', ''title'' \<mapsto> PStr ''Milk'']"]
    normalize_doc_identifier [of "\<lambda>v. []" "[''title'' \<mapsto> PStr ''Milk'']"]
  by simp

text \<open>
  C6. For each of the keys \<open>created_at\<close> and \<open>updated_at\<close>, the normalization never raises;
  a key that is absent stays absent, a value with the method \<open>isoformat\<close> (a datetime) is
  replaced by its ISO-8601 text, and any other value is left as it is.
\<close>

theorem normalize_doc_timestamps:
  assumes "k = ''created_at'' \<or> k = ''updated_at''"
  shows "\<exists>d'. normalize_doc other d = Inr d' \<and>
           (d k = None \<longrightarrow> d' k = None) \<and>
           (\<forall>t. d k = Some (PDatetime t) \<longrightarrow> d' k = Some (PStr (isoformat t))) \<and>
           (\<forall>v. d k = Some v \<longrightarrow> \<not> has_isoformat v \<longrightarrow> d' k = Some v)"
proof -
  obtain d' where d': "normalize_doc other d = Inr d'"
    using normalize_doc_total by blast
  have ne: "k \<noteq> ''_id''" "k \<noteq> ''id''"
    using assms by auto
  have look: "d' k = (case d k of Some (PDatetime t) \<Rightarrow> Some (PStr (isoformat t)) | x \<Rightarrow> x)"
    using normalize_doc_lookup [OF d', of k] assms ne by simp
  have a: "d k = None \<longrightarrow> d' k = None"
    by (simp add: look)
  have b: "\<forall>t. d k = Some (PDatetime t) \<longrightarrow> d' k = Some (PStr (isoformat t))"
    by (simp add: look)
  have c: "\<forall>v. d k = Some v \<longrightarrow> \<not> has_isoformat v \<longrightarrow> d' k = Some v"
  proof (intro allI impI)
    fix v assume "d k = Some v" "\<not> has_isoformat v"
    then show "d' k = Some v"
      by (cases v) (simp_all add: look)
  qed
  show ?thesis
    by (rule exI [of _ d']) (intro conjI d' a b c)
qed

theorem normalize_doc_timestamps_witness:
  "\<exists>d'. normalize_doc (\<lambda>v. [])
       [''_id'' \<mapsto> PObjectId ''65f0c1a2b3d4e5f607182930'',
        ''created_at'' \<mapsto> PDatetime \<lparr>year = 2024, month = 3, day = 2, hour = 3, minute = 4,
           second = 5, microsecond = 0\<rparr>] = Inr d'
      \<and> d' ''created_at'' = Some (PStr ''2024-03-02T03:04:05'')
      \<and> d' ''updated_at'' = None"
  using normalize_doc_timestamps [of "''created_at''" "\<lambda>v. []"
      "[''_id'' \<mapsto> PObjectId ''65f0c1a2b3d4e5f607182930'',
        ''created_at'' \<mapsto> PDatetime \<lparr>year = 2024, month = 3, day = 2, hour = 3, minute = 4,
           second = 5, microsecond = 0\<rparr>]"]
    normalize_doc_timestamps [of "''updated_at''" "\<lambda>v. []"
      "[''_id'' \<mapsto> PObjectId ''65f0c1a2b3d4e5f607182930'',
        ''created_at'' \<mapsto> PDatetime \<lparr>year = 2024, month = 3, day = 2, hour = 3, minute = 4,
           second = 5, microsecond = 0\<rparr>]"]
  by (auto simp: isoformat_example)

text \<open>
  C10. For every raw record, every key other than \<open>_id\<close>, \<open>id\<close>, \<open>created_at\<close> and
  \<open>updated_at\<close> is present in the normalized record exactly when it is present in the raw
  record, with the same value.
\<close>

theorem normalize_doc_frame:
  assumes "k \<notin> {''_id'', ''id'', ''created_at'', ''updated_at''}"
  shows "\<exists>d'. normalize_doc other d = Inr d' \<and> d' k = d k"
proof -
  obtain d' where d': "normalize_doc other d = Inr d'"
    using normalize_doc_total by blast
  from normalize_doc_lookup [OF d', of k] assms d' show ?thesis by simp
qed

theorem normalize_doc_frame_witness:
  "''title'' \<notin> {''_id'', ''id'', ''created_at'', ''updated_at''} \<and>
   (\<exists>d'. normalize_doc (\<lambda>v. [])
       [''_id'' \<mapsto> PObjectId ''65f0c1a2b3d4e5f607182930'', ''title'' \<mapsto> PStr ''Milk''] = Inr d'
      \<and> d' ''title'' = Some (PStr ''Milk''))"
  using normalize_doc_frame [of "''title''" "\<lambda>v. []"
      "[''_id'' \<mapsto> PObjectId ''65f0c1a2b3d4e5f607182930'', ''title'' \<mapsto> PStr ''Milk'']"]
  by simp


text \<open>
  C5. Normalizing an already-normalized record (no key \<open>_id\<close>, timestamps that are not
  datetimes) does not leave it unchanged in general: \<open>d.pop("_id", "")\<close> finds no identifier
  and the key \<open>id\<close> is overwritten with the empty string. Every other key keeps its value,
  so the record is unchanged exactly when its \<open>id\<close> already is the empty string.
\<close>

theorem normalize_doc_again:
  assumes "d ''_id'' = None"
    and "\<forall>v. d ''created_at'' = Some v \<longrightarrow> \<not> has_isoformat v"
    and "\<forall>v. d ''updated_at'' = Some v \<longrightarrow> \<not> has_isoformat v"
  shows "normalize_doc other d = Inr (d(''id'' \<mapsto> PStr [])) \<and>
         (normalize_doc other d = Inr d \<longleftrightarrow> d ''id'' = Some (PStr []))"
proof -
  obtain d' where d': "normalize_doc other d = Inr d'"
    using normalize_doc_total by blast
  have ts: "(case d k of Some (PDatetime t) \<Rightarrow> Some (PStr (isoformat t)) | x \<Rightarrow> x) = d k"
    if "k = ''created_at'' \<or> k = ''updated_at''" for k
  proof (cases "d k")
    case None
    then show ?thesis by simp
  next
    case (Some v)
    with assms(2,3) that have "\<not> has_isoformat v" by auto
    with Some show ?thesis by (cases v) simp_all
  qed
  have "d' k = (d(''id'' \<mapsto> PStr [])) k" for k
    using normalize_doc_lookup [OF d', of k] assms(1) ts [of k] by auto
  then have eq: "d' = d(''id'' \<mapsto> PStr [])"
    by (rule ext)
  have "d(''id'' \<mapsto> PStr []) = d \<longleftrightarrow> d ''id'' = Some (PStr [])"
    by (metis fun_upd_same fun_upd_triv)
  with d' eq show ?thesis by simp
qed

theorem normalize_doc_again_witness:
  "normalize_doc (\<lambda>v. [])
      [''id'' \<mapsto> PStr ''65f0c1a2b3d4e5f607182930'', ''created_at'' \<mapsto> PStr ''2024-03-02T03:04:05'']
    = Inr [''id'' \<mapsto> PStr [], ''created_at'' \<mapsto> PStr ''2024-03-02T03:04:05'']"
proof -
  have "normalize_doc (\<lambda>v. [])
      [''id'' \<mapsto> PStr ''65f0c1a2b3d4e5f607182930'', ''created_at'' \<mapsto> PStr ''2024-03-02T03:04:05'']
    = Inr ([''id'' \<mapsto> PStr ''65f0c1a2b3d4e5f607182930'',
            ''created_at'' \<mapsto> PStr ''2024-03-02T03:04:05''](''id'' \<mapsto> PStr []))"
    using normalize_doc_again [of
      "[''id'' \<mapsto> PStr ''65f0c1a2b3d4e5f607182930'', ''created_at'' \<mapsto> PStr ''2024-03-02T03:04:05'']"
      "\<lambda>v. []"]
    by simp
  moreover have "[''id'' \<mapsto> PStr ''65f0c1a2b3d4e5f607182930'',
            ''created_at'' \<mapsto> PStr ''2024-03-02T03:04:05''](''id'' \<mapsto> PStr [])
     = [''id'' \<mapsto> PStr [], ''created_at'' \<mapsto> PStr ''2024-03-02T03:04:05'']"
    by (rule ext) simp
  ultimately show ?thesis by simp
qed

text \<open>A normalized record with a non-empty \<open>id\<close> is changed by a second normalization.\<close>

theorem normalize_doc_not_idempotent:
  "normalize_doc (\<lambda>v. [])
      [''id'' \<mapsto> PStr ''65f0c1a2b3d4e5f607182930'', ''created_at'' \<mapsto> PStr ''2024-03-02T03:04:05'']
    \<noteq> Inr [''id'' \<mapsto> PStr ''65f0c1a2b3d4e5f607182930'',
            ''created_at'' \<mapsto> PStr ''2024-03-02T03:04:05'']"
proof
  assume a: "normalize_doc (\<lambda>v. [])
      [''id'' \<mapsto> PStr ''65f0c1a2b3d4e5f607182930'', ''created_at'' \<mapsto> PStr ''2024-03-02T03:04:05'']
    = Inr [''id'' \<mapsto> PStr ''65f0c1a2b3d4e5f607182930'',
            ''created_at'' \<mapsto> PStr ''2024-03-02T03:04:05'']"
  from normalize_doc_lookup [OF a, of "''id''"] show False by simp
qed


section \<open>Store errors at the endpoints\<close>

text \<open>
  C8. When the store adapter raises during the insert or the fetch, each of the four
  product and user endpoints answers with the HTTP exception of status 500 whose detail is
  the text of the error, and the store is left in the state after that single call: the
  call is not repeated and the error is not inspected.
\<close>

theorem store_error_is_500:
  "(create_p ''product'' p db = (Inl e, db') \<longrightarrow>
      create_product create_p p db = (Inl \<lparr>status_code = 500, detail = exn_str e\<rparr>, db')) \<and>
   (create_u ''user'' u db = (Inl e, db') \<longrightarrow>
      create_user create_u u db = (Inl \<lparr>status_code = 500, detail = exn_str e\<rparr>, db')) \<and>
   (get_documents ''product'' limit db = (Inl e, db') \<longrightarrow>
      list_products get_documents other limit db
        = (Inl \<lparr>status_code = 500, detail = exn_str e\<rparr>, db')) \<and>
   (get_documents ''user'' limit db = (Inl e, db') \<longrightarrow>
      list_users get_documents other limit db
        = (Inl \<lparr>status_code = 500, detail = exn_str e\<rparr>, db'))"
proof (intro conjI impI)
  assume "create_p ''product'' p db = (Inl e, db')"
  then show "create_product create_p p db
      = (Inl \<lparr>status_code = 500, detail = exn_str e\<rparr>, db')"
    by (simp add: create_product_def)
next
  assume "create_u ''user'' u db = (Inl e, db')"
  then show "create_user create_u u db
      = (Inl \<lparr>status_code = 500, detail = exn_str e\<rparr>, db')"
    by (simp add: create_user_def)
next
  assume "get_documents ''product'' limit db = (Inl e, db')"
  then show "list_products get_documents other limit db
      = (Inl \<lparr>status_code = 500, detail = exn_str e\<rparr>, db')"
    by (simp add: list_products_def)
next
  assume "get_documents ''user'' limit db = (Inl e, db')"
  then show "list_users get_documents other limit db
      = (Inl \<lparr>status_code = 500, detail = exn_str e\<rparr>, db')"
    by (simp add: list_users_def)
qed

theorem store_error_is_500_witness:
  "create_product (\<lambda>c p n. (Inl (Exception ''connection refused''), Suc n))
      \<lparr>title = ''Milk'', description = None, product_price = Fin 2, category = ''dairy'',
        in_stock = True\<rparr> (0::nat)
     = (Inl \<lparr>status_code = 500, detail = ''connection refused''\<rparr>, Suc 0) \<and>
   create_user (\<lambda>c p n. (Inl (Exception ''connection refused''), Suc n))
      \<lparr>user_name = ''Ann'', email = ''ann@example.com'', address = ''1 Main St'', age = None,
        is_active = True\<rparr> (0::nat)
     = (Inl \<lparr>status_code = 500, detail = ''connection refused''\<rparr>, Suc 0) \<and>
   list_products (\<lambda>c l n. (Inl (Exception ''connection refused''), Suc n)) (\<lambda>v. [])
      (Some 50) (0::nat)
     = (Inl \<lparr>status_code = 500, detail = ''connection refused''\<rparr>, Suc 0) \<and>
   list_users (\<lambda>c l n. (Inl (Exception ''connection refused''), Suc n)) (\<lambda>v. [])
      (Some 50) (0::nat)
     = (Inl \<lparr>status_code = 500, detail = ''connection refused''\<rparr>, Suc 0)"
  using store_error_is_500 [of "\<lambda>c p n. (Inl (Exception ''connection refused''), Suc n)"
      "\<lparr>title = ''Milk'', description = None, product_price = Fin 2, category = ''dairy'',
        in_stock = True\<rparr>" "0::nat" "Exception ''connection refused''" "Suc 0"
      "\<lambda>c p n. (Inl (Exception ''connection refused''), Suc n)"
      "\<lparr>user_name = ''Ann'', email = ''ann@example.com'', address = ''1 Main St'', age = None,
        is_active = True\<rparr>"
      "\<lambda>c l n. (Inl (Exception ''connection refused''), Suc n)" "Some 50" "\<lambda>v. []"]
  by simp

text \<open>When the store answers, the listing endpoints return the normalized documents:
  the normalization itself never turns a successful fetch into an error.\<close>

lemma list_products_ok:
  "get_documents ''product'' limit db = (Inr docs, db') \<Longrightarrow>
   \<exists>docs'. list_products get_documents other limit db = (Inr \<lparr>listing_items = docs'\<rparr>, db')
      \<and> normalize_all other docs = Inr docs'"
  using normalize_all_total [of other docs] by (auto simp: list_products_def)

lemma list_users_ok:
  "get_documents ''user'' limit db = (Inr docs, db') \<Longrightarrow>
   \<exists>docs'. list_users get_documents other limit db = (Inr \<lparr>listing_items = docs'\<rparr>, db')
      \<and> normalize_all other docs = Inr docs'"
  using normalize_all_total [of other docs] by (auto simp: list_users_def)


section \<open>Properties of the float model\<close>

lemma pow2_powi: "pow2 k = 2 powi k"
  by (simp add: pow2_def power_int_def inverse_eq_divide power_one_over)

lemma pow2_pos [simp]: "0 < pow2 k"
  by (simp add: pow2_powi)

lemma pow2_add: "pow2 (a + b) = pow2 a * pow2 b"
  by (simp add: pow2_powi power_int_add)

lemma pow2_diff: "pow2 (a - b) = pow2 a / pow2 b"
  by (simp add: pow2_powi power_int_diff)

lemma pow2_mono: "a \<le> b \<Longrightarrow> pow2 a \<le> pow2 b"
  by (simp add: pow2_powi power_int_increasing)

lemma pow2_strict_mono: "a < b \<Longrightarrow> pow2 a < pow2 b"
  by (simp add: pow2_powi power_int_strict_increasing)

lemma pow2_le_iff: "pow2 a \<le> pow2 b \<longleftrightarrow> a \<le> b"
  using pow2_mono [of a b] pow2_strict_mono [of b a] by (auto simp: not_le [symmetric])

lemma pow2_less_iff: "pow2 a < pow2 b \<longleftrightarrow> a < b"
  using pow2_strict_mono [of a b] pow2_mono [of b a] by (auto simp: not_less [symmetric])

lemma pow2_nat: "0 \<le> k \<Longrightarrow> pow2 k = of_int (2 ^ nat k)"
  by (simp add: pow2_def)

lemma pow2_0 [simp]: "pow2 0 = 1"
  by (simp add: pow2_def)

lemma pow2_1 [simp]: "pow2 1 = 2"
  by (simp add: pow2_def)

lemma pow2_Suc: "pow2 (k + 1) = 2 * pow2 k"
  by (simp add: pow2_add)

text \<open>The exponent found by \<open>ilog2\<close> brackets its argument.\<close>

lemma ilog2_bounds:
  assumes "0 < a"
  shows "pow2 (ilog2 a) \<le> a \<and> a < pow2 (ilog2 a + 1)"
proof -
  obtain p q where pq: "quotient_of a = (p, q)"
    by (cases "quotient_of a")
  have q: "0 < q" using pq by (rule quotient_of_denom_pos)
  have a: "a = of_int p / of_int q" using pq by (rule quotient_of_div)
  have p: "0 < p"
    using assms q by (simp add: a zero_less_divide_iff)
  define bp bq where "bp = bitlen p" and "bq = bitlen q"
  have bp1: "1 \<le> bp" and bq1: "1 \<le> bq"
    using p q bitlen_eq_zero_iff [of p] bitlen_eq_zero_iff [of q] bitlen_nonneg [of p]
      bitlen_nonneg [of q]
    by (auto simp: bp_def bq_def)
  have pb: "pow2 (bp - 1) \<le> of_int p" "of_int p < pow2 bp"
    using bitlen_bounds [OF p] bp1
    by (simp_all add: pow2_nat bp_def del: of_int_power) 
  have qb: "pow2 (bq - 1) \<le> of_int q" "of_int q < pow2 bq"
    using bitlen_bounds [OF q] bq1
    by (simp_all add: pow2_nat bq_def del: of_int_power)
  have qpos: "(0::rat) < of_int q" using q by simp
  have up: "a < pow2 (bp - bq + 1)"
  proof -
    have "of_int p < pow2 bp" by (rule pb)
    also have "pow2 bp = pow2 (bp - bq + 1) * pow2 (bq - 1)"
      by (simp add: pow2_add [symmetric])
    also have "\<dots> \<le> pow2 (bp - bq + 1) * of_int q"
      using qb(1) by (simp add: mult_left_mono)
    finally show ?thesis
      using qpos by (simp add: a pos_divide_less_eq)
  qed
  have lo: "pow2 (bp - bq - 1) < a"
  proof -
    have "pow2 (bp - bq - 1) * of_int q < pow2 (bp - bq - 1) * pow2 bq"
      using qb(2) by (simp add: mult_strict_left_mono)
    also have "\<dots> = pow2 (bp - 1)"
      by (simp add: pow2_add [symmetric])
    also have "\<dots> \<le> of_int p" by (rule pb)
    finally show ?thesis
      using qpos by (simp add: a pos_less_divide_eq)
  qed
  have il: "ilog2 a = (if pow2 (bp - bq) \<le> a then bp - bq else bp - bq - 1)"
    by (simp add: ilog2_def pq Let_def bp_def bq_def)
  show ?thesis
  proof (cases "pow2 (bp - bq) \<le> a")
    case True
    with up show ?thesis by (simp add: il)
  next
    case False
    with lo show ?thesis by (simp add: il)
  qed
qed

lemma ilog2_unique:
  assumes "pow2 k \<le> a" "a < pow2 (k + 1)"
  shows "ilog2 a = k"
proof -
  have "0 < a" using assms(1) pow2_pos [of k] by linarith
  then have b: "pow2 (ilog2 a) \<le> a" "a < pow2 (ilog2 a + 1)"
    using ilog2_bounds by blast+
  have "pow2 k < pow2 (ilog2 a + 1)" using assms(1) b(2) by linarith
  then have 1: "k < ilog2 a + 1" by (simp add: pow2_less_iff)
  have "pow2 (ilog2 a) < pow2 (k + 1)" using assms(2) b(1) by linarith
  then have 2: "ilog2 a < k + 1" by (simp add: pow2_less_iff)
  from 1 2 show ?thesis by linarith
qed


text \<open>Rounding to the nearest integer.\<close>

lemma round_half_even_near:
  assumes "\<bar>of_int n - x\<bar> < 1 / 2"
  shows "round_half_even x = n"
proof (cases "of_int n \<le> x")
  case True
  have "of_int n \<le> x \<and> x < of_int n + 1" using True assms by linarith
  then have f: "\<lfloor>x\<rfloor> = n" by (simp only: floor_eq_iff)
  have "x - of_int n < 1 / 2" using assms True by linarith
  then show ?thesis by (simp add: round_half_even_def Let_def f)
next
  case False
  have "of_int (n - 1) \<le> x \<and> x < of_int (n - 1) + 1" using False assms by simp
  then have f: "\<lfloor>x\<rfloor> = n - 1" by (simp only: floor_eq_iff)
  have gt: "1 / 2 < x - of_int (n - 1)" using assms False by simp
  then have "\<not> x - of_int (n - 1) < 1 / 2" by linarith
  with gt show ?thesis by (simp add: round_half_even_def Let_def f)
qed

lemma round_half_even_of_int [simp]: "round_half_even (of_int n) = n"
  by (rule round_half_even_near) simp

lemma round_half_even_error: "\<bar>of_int (round_half_even x) - x\<bar> \<le> 1 / 2"
proof -
  have f: "of_int \<lfloor>x\<rfloor> \<le> x" "x < of_int \<lfloor>x\<rfloor> + 1"
    by linarith+
  consider "x - of_int \<lfloor>x\<rfloor> < 1 / 2" | "1 / 2 < x - of_int \<lfloor>x\<rfloor>"
    | "x - of_int \<lfloor>x\<rfloor> = 1 / 2"
    by linarith
  then show ?thesis
  proof cases
    case 1
    then have "round_half_even x = \<lfloor>x\<rfloor>" by (simp add: round_half_even_def Let_def)
    with 1 f show ?thesis by simp
  next
    case 2
    then have "round_half_even x = \<lfloor>x\<rfloor> + 1" by (simp add: round_half_even_def Let_def)
    with 2 f show ?thesis by simp
  next
    case 3
    then have "round_half_even x = \<lfloor>x\<rfloor> \<or> round_half_even x = \<lfloor>x\<rfloor> + 1"
      by (simp add: round_half_even_def Let_def)
    with 3 show ?thesis by auto
  qed
qed

lemma round_half_even_le:
  assumes "x \<le> of_int n"
  shows "round_half_even x \<le> n"
proof -
  have "of_int (round_half_even x) \<le> x + 1 / 2"
    using round_half_even_error [of x] by linarith
  then have "of_int (round_half_even x) < (of_int (n + 1) :: rat)"
    using assms by simp
  then have "round_half_even x < n + 1"
    by (simp only: of_int_less_iff)
  then show ?thesis by simp
qed

lemma round_half_even_ge:
  assumes "of_int n \<le> x"
  shows "n \<le> round_half_even x"
proof -
  have "x - 1 / 2 \<le> of_int (round_half_even x)"
    using round_half_even_error [of x] by linarith
  then have "(of_int (n - 1) :: rat) < of_int (round_half_even x)"
    using assms by simp
  then have "n - 1 < round_half_even x"
    by (simp only: of_int_less_iff)
  then show ?thesis by simp
qed

lemma round_half_even_tie:
  assumes "x = of_int f + 1 / 2"
  shows "round_half_even x = (if even f then f else f + 1)"
proof -
  have "of_int f \<le> x \<and> x < of_int f + 1" using assms by simp
  then have f: "\<lfloor>x\<rfloor> = f" by (simp only: floor_eq_iff)
  have "x - of_int f = 1 / 2" using assms by simp
  then show ?thesis by (simp add: round_half_even_def Let_def f)
qed

text \<open>How \<open>rnd\<close> is computed at a given number: the exponent \<open>k\<close> and the integer \<open>m\<close>
  nearest to the scaled value determine the result.\<close>

lemma rnd_eval:
  assumes "pow2 k \<le> a" "a < pow2 (k + 1)" "e = max (k - 52) (- 1074)"
    and "\<bar>of_int m - a / pow2 e\<bar> < 1 / 2" "0 < m" "of_int m * pow2 e < pow2 1024"
  shows "rnd a = Fin (of_int m * pow2 e)" and "rnd (- a) = Fin (- (of_int m * pow2 e))"
proof -
  have a: "0 < a" using assms(1) pow2_pos [of k] by linarith
  have k: "ilog2 a = k" using assms(1,2) by (rule ilog2_unique)
  have m: "round_half_even (a / pow2 e) = m"
    using assms(4) by (rule round_half_even_near)
  have e: "max (ilog2 a - 52) (- 1074) = e"
    by (simp only: k assms(3))
  have nov: "\<not> pow2 1024 \<le> of_int m * pow2 e"
    using assms(6) by simp
  have abs: "\<bar>a\<bar> = a" "\<bar>- a\<bar> = a" using a by simp_all
  have m0: "m \<noteq> 0" using assms(5) by simp
  have "rnd a = (if pow2 1024 \<le> of_int m * pow2 e then PInf
      else if m = 0 then Fin 0 else Fin (of_int m * pow2 e))"
    using a unfolding rnd_def Let_def abs e m by simp
  then show "rnd a = Fin (of_int m * pow2 e)"
    by (simp only: nov m0 if_False)
  have "rnd (- a) = (if pow2 1024 \<le> of_int m * pow2 e then NInf
      else if m = 0 then NegZero else Fin (- (of_int m * pow2 e)))"
    using a unfolding rnd_def Let_def abs e m by simp
  then show "rnd (- a) = Fin (- (of_int m * pow2 e))"
    by (simp only: nov m0 if_False)
qed



lemma rnd_eval_tie:
  assumes "pow2 k \<le> a" "a < pow2 (k + 1)" "e = max (k - 52) (- 1074)"
    and "round_half_even (a / pow2 e) = m" "0 < m" "of_int m * pow2 e < pow2 1024"
  shows "rnd a = Fin (of_int m * pow2 e)" and "rnd (- a) = Fin (- (of_int m * pow2 e))"
proof -
  have a: "0 < a" using assms(1) pow2_pos [of k] by linarith
  have k: "ilog2 a = k" using assms(1,2) by (rule ilog2_unique)
  note m = assms(4)
  have e: "max (ilog2 a - 52) (- 1074) = e"
    by (simp only: k assms(3))
  have nov: "\<not> pow2 1024 \<le> of_int m * pow2 e"
    using assms(6) by simp
  have abs: "\<bar>a\<bar> = a" "\<bar>- a\<bar> = a" using a by simp_all
  have m0: "m \<noteq> 0" using assms(5) by simp
  have "rnd a = (if pow2 1024 \<le> of_int m * pow2 e then PInf
      else if m = 0 then Fin 0 else Fin (of_int m * pow2 e))"
    using a unfolding rnd_def Let_def abs e m by simp
  then show "rnd a = Fin (of_int m * pow2 e)"
    by (simp only: nov m0 if_False)
  have "rnd (- a) = (if pow2 1024 \<le> of_int m * pow2 e then NInf
      else if m = 0 then NegZero else Fin (- (of_int m * pow2 e)))"
    using a unfolding rnd_def Let_def abs e m by simp
  then show "rnd (- a) = Fin (- (of_int m * pow2 e))"
    by (simp only: nov m0 if_False)
qed

lemma pow2_nonneg [simp]: "0 \<le> pow2 k"
  using pow2_pos [of k] by linarith

lemma pow2_neq0 [simp]: "pow2 k \<noteq> 0"
  using pow2_pos [of k] by linarith

text \<open>The shape of every result of \<open>rnd\<close>: an integer of at most 53 bits times a power of
  two not below \<open>2^-1074\<close>.\<close>

lemma rnd_scaled_bound:
  assumes "0 < a" "e = max (ilog2 a - 52) (- 1074)"
  shows "a / pow2 e < pow2 53"
proof -
  have "a < pow2 (ilog2 a + 1)" using ilog2_bounds [OF assms(1)] by simp
  also have "\<dots> \<le> pow2 (53 + e)"
    using assms(2) by (intro pow2_mono) simp
  also have "\<dots> = pow2 53 * pow2 e" by (simp add: pow2_add)
  finally show ?thesis by (simp add: pos_divide_less_eq)
qed

lemma pow2_53: "pow2 53 = of_int 9007199254740992"
  by (simp add: pow2_def)

lemma rnd_mantissa_le:
  assumes "0 < a" "e = max (ilog2 a - 52) (- 1074)"
  shows "round_half_even (a / pow2 e) \<le> 9007199254740992"
    and "0 \<le> round_half_even (a / pow2 e)"
proof -
  have "a / pow2 e \<le> of_int 9007199254740992"
    using rnd_scaled_bound [OF assms] by (simp only: pow2_53)
  then show "round_half_even (a / pow2 e) \<le> 9007199254740992"
    by (rule round_half_even_le)
  have "of_int 0 \<le> a / pow2 e" using assms(1) by simp
  then show "0 \<le> round_half_even (a / pow2 e)"
    by (rule round_half_even_ge)
qed

lemma rnd_cases:
  assumes "r \<noteq> 0"
  obtains (inf) "rnd r = PInf \<or> rnd r = NInf"
  | (zero) "rnd r = Fin 0 \<or> rnd r = NegZero"
  | (fin) m e where "0 < m" "m \<le> 9007199254740992" "- 1074 \<le> e"
      "e = max (ilog2 \<bar>r\<bar> - 52) (- 1074)"
      "of_int m * pow2 e < pow2 1024"
      "rnd r = Fin ((if 0 < r then 1 else - 1) * (of_int m * pow2 e))"
proof -
  define e where "e = max (ilog2 \<bar>r\<bar> - 52) (- 1074)"
  define m where "m = round_half_even (\<bar>r\<bar> / pow2 e)"
  have a: "0 < \<bar>r\<bar>" using assms by simp
  have m: "m \<le> 9007199254740992" "0 \<le> m"
    using rnd_mantissa_le [OF a e_def] by (simp_all add: m_def)
  have r: "rnd r = (if pow2 1024 \<le> of_int m * pow2 e then (if 0 < r then PInf else NInf)
              else if m = 0 then (if 0 < r then Fin 0 else NegZero)
              else Fin (if 0 < r then of_int m * pow2 e else - (of_int m * pow2 e)))"
    using assms by (simp add: rnd_def Let_def e_def m_def)
  show thesis
  proof (cases "pow2 1024 \<le> of_int m * pow2 e")
    case True
    then have "rnd r = PInf \<or> rnd r = NInf" by (simp add: r)
    then show thesis by (rule inf)
  next
    case False
    show thesis
    proof (cases "m = 0")
      case True
      with False have "rnd r = Fin 0 \<or> rnd r = NegZero" by (simp add: r)
      then show thesis by (rule zero)
    next
      case m0: False
      have "rnd r = Fin ((if 0 < r then 1 else - 1) * (of_int m * pow2 e))"
        using False m0 by (simp add: r)
      moreover have "0 < m" using m0 m(2) by simp
      moreover have "- 1074 \<le> e" by (simp add: e_def)
      moreover have "of_int m * pow2 e < pow2 1024" using False by simp
      ultimately show thesis using m(1) e_def by (intro fin [of m e]) simp_all
    qed
  qed
qed

text \<open>A number of that shape is left unchanged by \<open>rnd\<close>.\<close>

lemma rnd_exact_pos:
  assumes "0 < m" "m \<le> 9007199254740992" "- 1074 \<le> e" "of_int m * pow2 e < pow2 1024"
  shows "rnd (of_int m * pow2 e) = Fin (of_int m * pow2 e)"
    and "rnd (- (of_int m * pow2 e)) = Fin (- (of_int m * pow2 e))"
proof -
  define a where "a = of_int m * pow2 e"
  have a: "0 < a" using assms(1) by (simp add: a_def)
  define e' where "e' = max (ilog2 a - 52) (- 1074)"
  have kb: "pow2 (ilog2 a) \<le> a" using ilog2_bounds [OF a] by simp
  have "a \<le> pow2 53 * pow2 e"
    using assms(2) by (simp add: a_def pow2_53)
  then have "pow2 (ilog2 a) \<le> pow2 (53 + e)"
    using kb by (simp add: pow2_add)
  then have k53: "ilog2 a \<le> 53 + e" by (simp only: pow2_le_iff)
  have "\<exists>M. a / pow2 e' = of_int M"
  proof (cases "ilog2 a = 53 + e")
    case True
    then have e': "e' = e + 1" using assms(3) by (simp add: e'_def)
    have "pow2 53 * pow2 e \<le> a" using kb True by (simp add: pow2_add)
    then have "pow2 53 \<le> of_int m" by (simp add: a_def)
    then have "(of_int 9007199254740992 :: rat) \<le> of_int m" by (simp only: pow2_53)
    then have "9007199254740992 \<le> m" by (simp only: of_int_le_iff)
    with assms(2) have m: "m = 9007199254740992" by simp
    have "a / pow2 e' = of_int 4503599627370496"
      by (simp add: a_def e' m pow2_Suc)
    then show ?thesis ..
  next
    case False
    with k53 have "ilog2 a - 52 \<le> e" by simp
    then have le: "e' \<le> e" using assms(3) by (simp add: e'_def)
    have "a / pow2 e' = of_int m * pow2 (e - e')"
      by (simp add: a_def pow2_diff)
    also have "\<dots> = of_int (m * 2 ^ nat (e - e'))"
      using le by (simp add: pow2_nat)
    finally show ?thesis ..
  qed
  then obtain M where M: "a / pow2 e' = of_int M" ..
  have Ma: "of_int M * pow2 e' = a"
    using M [symmetric] by simp
  have M0: "M \<noteq> 0" using Ma a by auto
  have nov: "\<not> pow2 1024 \<le> a" using assms(4) by (simp add: a_def)
  have abs: "\<bar>a\<bar> = a" "\<bar>- a\<bar> = a" using a by simp_all
  have "rnd a = Fin a"
    using a nov M0 unfolding rnd_def Let_def abs e'_def [symmetric] M
    by (simp add: Ma)
  then show "rnd (of_int m * pow2 e) = Fin (of_int m * pow2 e)"
    by (simp only: a_def)
  have "rnd (- a) = Fin (- a)"
    using a nov M0 unfolding rnd_def Let_def abs e'_def [symmetric] M
    by (simp add: Ma)
  then show "rnd (- (of_int m * pow2 e)) = Fin (- (of_int m * pow2 e))"
    by (simp only: a_def)
qed

lemma representable_0 [simp]: "representable 0"
  by (simp add: representable_def rnd_def)

lemma rnd_wf: "wf (rnd r)"
proof (cases "r = 0")
  case True
  then show ?thesis by (simp add: rnd_def representable_def)
next
  case False
  then show ?thesis
  proof (cases rule: rnd_cases)
    case inf
    then show ?thesis by auto
  next
    case zero
    then show ?thesis by auto
  next
    case (fin m e)
    note ex = rnd_exact_pos [OF fin(1,2,3,5)]
    show ?thesis
    proof (cases "0 < r")
      case True
      with fin(6) ex(1) show ?thesis by (simp add: representable_def)
    next
      case False
      with fin(6) ex(2) show ?thesis by (simp add: representable_def)
    qed
  qed
qed

lemma fadd_wf: "wf (fadd a b)"
  by (cases a; cases b) (simp_all add: fadd_def rnd_wf)

lemma fmul_wf: "wf (fmul a b)"
  by (cases a; cases b) (simp_all add: fmul_def rnd_wf signed_zero_def signed_inf_def)


text \<open>Overflow happens from \<open>2^1024\<close> on and never below \<open>2^1023\<close>.\<close>

lemma rnd_finite:
  assumes "\<bar>r\<bar> < pow2 1023"
  shows "rnd r \<noteq> PInf \<and> rnd r \<noteq> NInf"
proof (cases "r = 0")
  case True
  then show ?thesis by (simp add: rnd_def)
next
  case False
  define e where "e = max (ilog2 \<bar>r\<bar> - 52) (- 1074)"
  define m where "m = round_half_even (\<bar>r\<bar> / pow2 e)"
  have a: "0 < \<bar>r\<bar>" using False by simp
  have m: "m \<le> 9007199254740992"
    using rnd_mantissa_le(1) [OF a e_def] by (simp add: m_def)
  have "pow2 (ilog2 \<bar>r\<bar>) < pow2 1023"
    using ilog2_bounds [OF a] assms by linarith
  then have "ilog2 \<bar>r\<bar> < 1023" by (simp only: pow2_less_iff)
  then have e: "e \<le> 970" by (simp add: e_def)
  have "of_int m * pow2 e \<le> pow2 53 * pow2 e"
    using m by (simp add: pow2_53)
  also have "\<dots> = pow2 (53 + e)" by (simp add: pow2_add)
  also have "\<dots> \<le> pow2 1023" using e by (intro pow2_mono) simp
  also have "\<dots> < pow2 1024" by (intro pow2_strict_mono) simp
  finally have nov: "\<not> pow2 1024 \<le> of_int m * pow2 e" by simp
  show ?thesis
    using False nov by (simp add: rnd_def Let_def e_def [symmetric] m_def [symmetric])
qed

lemma rnd_overflow:
  assumes "pow2 1024 \<le> a"
  shows "rnd a = PInf"
proof -
  have a: "0 < a" using assms pow2_pos [of 1024] by linarith
  define k where "k = ilog2 a"
  define e where "e = max (k - 52) (- 1074)"
  define m where "m = round_half_even (a / pow2 e)"
  have kb: "pow2 k \<le> a" "a < pow2 (k + 1)"
    using ilog2_bounds [OF a] by (simp_all add: k_def)
  have "pow2 1024 < pow2 (k + 1)" using assms kb(2) by linarith
  then have k: "1024 \<le> k" by (simp add: pow2_less_iff)
  then have e: "e = k - 52" by (simp add: e_def)
  have "pow2 52 * pow2 e \<le> a" using kb(1) by (simp add: e pow2_add [symmetric])
  then have "pow2 52 \<le> a / pow2 e" by (simp add: pos_le_divide_eq)
  moreover have p52: "pow2 52 = of_int 4503599627370496" by (simp add: pow2_def)
  ultimately have "of_int 4503599627370496 \<le> a / pow2 e" by simp
  then have m: "4503599627370496 \<le> m"
    unfolding m_def by (rule round_half_even_ge)
  have "pow2 1024 \<le> pow2 k" using k by (intro pow2_mono)
  also have "\<dots> = pow2 52 * pow2 e" by (simp add: e pow2_add [symmetric])
  also have "\<dots> \<le> of_int m * pow2 e"
  proof -
    have "(of_int 4503599627370496 :: rat) \<le> of_int m"
      using m by (simp only: of_int_le_iff)
    then have "pow2 52 \<le> of_int m" by (simp only: p52)
    then show ?thesis by (intro mult_right_mono) simp_all
  qed
  finally have ov: "pow2 1024 \<le> of_int m * pow2 e" .
  have abs: "\<bar>a\<bar> = a" using a by simp
  show ?thesis
    using a ov unfolding rnd_def Let_def abs k_def [symmetric] e_def [symmetric] m_def [symmetric]
    by simp
qed

text \<open>A binary64 value of magnitude at least \<open>2^53\<close> is an integer.\<close>

lemma representable_large_int:
  assumes "representable v" "pow2 53 \<le> \<bar>v\<bar>"
  shows "\<exists>n. v = of_int n"
proof -
  have v0: "v \<noteq> 0"
  proof
    assume "v = 0"
    with assms(2) have "pow2 53 \<le> 0" by simp
    with pow2_pos [of 53] show False by linarith
  qed
  have rv: "rnd v = Fin v" using assms(1) by (simp add: representable_def)
  from v0 show ?thesis
  proof (cases rule: rnd_cases)
    case inf
    with rv show ?thesis by auto
  next
    case zero
    with rv v0 show ?thesis by auto
  next
    case (fin m e)
    have a: "0 < \<bar>v\<bar>" using v0 by simp
    have "pow2 53 < pow2 (ilog2 \<bar>v\<bar> + 1)"
      using ilog2_bounds [OF a] assms(2) by linarith
    then have "53 \<le> ilog2 \<bar>v\<bar>" by (simp add: pow2_less_iff)
    then have e0: "0 \<le> e" using fin(4) by simp
    have "v = (if 0 < v then 1 else - 1) * (of_int m * pow2 e)"
      using fin(6) rv by simp
    also have "\<dots> = of_int ((if 0 < v then 1 else - 1) * (m * 2 ^ nat e))"
      using e0 by (simp add: pow2_nat)
    finally show ?thesis ..
  qed
qed

text \<open>\<open>round(x, 2)\<close> never raises on a well-formed float.\<close>

lemma round2_total:
  assumes "wf x"
  shows "\<exists>y. round2 x = Inr y \<and> wf y"
proof (cases x)
  case (Fin v)
  define k where "k = round_half_even (\<bar>v\<bar> * 100)"
  define q where "q = (if v < 0 then - 1 else 1) * (of_int k / 100 :: rat)"
  have rv: "representable v" using assms Fin by simp
  show ?thesis
  proof (cases "k = 0")
    case True
    then show ?thesis
      by (simp add: Fin round2_def Let_def k_def [symmetric] signed_zero_def)
  next
    case False
    have fin: "rnd q \<noteq> PInf \<and> rnd q \<noteq> NInf"
    proof (cases "pow2 53 \<le> \<bar>v\<bar>")
      case True
      then obtain n where n: "v = of_int n"
        using representable_large_int [OF rv] by blast
      have "\<bar>v\<bar> * 100 = of_int (\<bar>n\<bar> * 100)" by (simp add: n)
      then have "k = \<bar>n\<bar> * 100" by (simp only: k_def round_half_even_of_int)
      then have "q = v" by (simp add: q_def n)
      then show ?thesis using rv by (simp add: representable_def)
    next
      case False
      have k0: "0 \<le> k"
        unfolding k_def by (rule round_half_even_ge) simp
      have "of_int k \<le> \<bar>v\<bar> * 100 + 1 / 2"
        unfolding k_def using round_half_even_error [of "\<bar>v\<bar> * 100"] by linarith
      then have "of_int k / 100 \<le> \<bar>v\<bar> + 1 / 200" by simp
      also have "\<dots> < pow2 53 + 1" using False by simp
      also have "\<dots> < pow2 1023" by (simp add: pow2_def)
      finally have "of_int k / 100 < pow2 1023" .
      moreover have "\<bar>q\<bar> = of_int k / 100" using k0 by (simp add: q_def abs_mult)
      ultimately show ?thesis using rnd_finite [of q] by simp
    qed
    have "round2 x = Inr (rnd q)"
      unfolding Fin round2_def Let_def double.case k_def [symmetric] q_def [symmetric]
      using False fin by (cases "rnd q") simp_all
    then show ?thesis by (simp add: rnd_wf)
  qed
qed (simp_all add: round2_def)

lemma foldl_fadd_wf: "wf a \<Longrightarrow> wf (foldl fadd a xs)"
  by (induction xs arbitrary: a) (simp_all add: fadd_wf)

lemma py_sum_wf: "py_sum xs = PyFloat d \<Longrightarrow> wf d"
  by (cases xs) (auto simp: foldl_fadd_wf fadd_wf)


subsection \<open>The values of the examples\<close>

text \<open>Each lemma gives the binary64 value nearest to a number that occurs in the examples
  below, by naming its exponent and its 53-bit integer.\<close>

lemma rnd_val_1: "rnd (7 / 100) = Fin (1261007895663739 / 18014398509481984)"
  using rnd_eval(1) [of "- 4" "7 / 100" "- 56" 5044031582654956]
  by (simp add: pow2_def)

lemma rnd_val_2: "rnd (499 / 100) = Fin (2809120267572347 / 562949953421312)"
  using rnd_eval(1) [of 2 "499 / 100" "- 50" 5618240535144694]
  by (simp add: pow2_def)

lemma rnd_val_3: "rnd 2 = Fin 2"
  using rnd_eval(1) [of 1 "2" "- 51" 4503599627370496]
  by (simp add: pow2_def)

lemma rnd_val_4: "rnd 20 = Fin 20"
  using rnd_eval(1) [of 4 "20" "- 48" 5629499534213120]
  by (simp add: pow2_def)

lemma rnd_val_5: "rnd (6305039478318695 / 4503599627370496) = Fin (6305039478318695 / 4503599627370496)"
  using rnd_eval(1) [of 0 "6305039478318695 / 4503599627370496" "- 52" 6305039478318695]
  by (simp add: pow2_def)

lemma rhe_val_1: "round_half_even (157625986957967375 / 1125899906842624) = 140"
  by (rule round_half_even_near) simp

lemma rnd_val_6: "rnd (7 / 5) = Fin (3152519739159347 / 2251799813685248)"
  using rnd_eval(1) [of 0 "7 / 5" "- 52" 6305039478318694]
  by (simp add: pow2_def)

lemma rnd_val_7: "rnd (48188516012864307 / 2251799813685248) = Fin (3011782250804019 / 140737488355328)"
  using rnd_eval(1) [of 4 "48188516012864307 / 2251799813685248" "- 48" 6023564501608038]
  by (simp add: pow2_def)

lemma rnd_val_8_tie: "round_half_even (14856249270788423 / 2) = 7428124635394212"
  using round_half_even_tie [of "14856249270788423 / 2" 7428124635394211] by simp

lemma rnd_val_8: "rnd (14856249270788423 / 562949953421312) = Fin (1857031158848553 / 70368744177664)"
  using rnd_eval_tie(1) [of 4 "14856249270788423 / 562949953421312" "- 48" 7428124635394212] rnd_val_8_tie
  by (simp add: pow2_def)

lemma rhe_val_2: "round_half_even (46425778971213825 / 17592186044416) = 2639"
  by (rule round_half_even_near) simp

lemma rnd_val_9: "rnd (2639 / 100) = Fin (1857031158848553 / 70368744177664)"
  using rnd_eval(1) [of 4 "2639 / 100" "- 48" 7428124635394212]
  by (simp add: pow2_def)

lemma rhe_val_3: "round_half_even 2000 = 2000"
  by (rule round_half_even_near) simp

lemma rhe_val_4: "round_half_even (70228006689308675 / 140737488355328) = 499"
  by (rule round_half_even_near) simp

lemma rnd_val_10: "rnd (- 20) = Fin (- 20)"
  using rnd_eval(2) [of 4 "20" "- 48" 5629499534213120]
  by (simp add: pow2_def)

lemma rnd_val_11: "rnd (- (6305039478318695 / 4503599627370496)) = Fin (- (6305039478318695 / 4503599627370496))"
  using rnd_eval(2) [of 0 "6305039478318695 / 4503599627370496" "- 52" 6305039478318695]
  by (simp add: pow2_def)

lemma rnd_val_12: "rnd (- (7 / 5)) = Fin (- (3152519739159347 / 2251799813685248))"
  using rnd_eval(2) [of 0 "7 / 5" "- 52" 6305039478318694]
  by (simp add: pow2_def)

lemma rnd_val_13: "rnd (- (48188516012864307 / 2251799813685248)) = Fin (- (3011782250804019 / 140737488355328))"
  using rnd_eval(2) [of 4 "48188516012864307 / 2251799813685248" "- 48" 6023564501608038]
  by (simp add: pow2_def)

lemma rnd_val_14_tie: "round_half_even (9238008735643729 / 2) = 4619004367821864"
  using round_half_even_tie [of "9238008735643729 / 2" 4619004367821864] by simp

lemma rnd_val_14: "rnd (- (9238008735643729 / 562949953421312)) = Fin (- (577375545977733 / 35184372088832))"
  using rnd_eval_tie(2) [of 4 "9238008735643729 / 562949953421312" "- 48" 4619004367821864] rnd_val_14_tie
  by (simp add: pow2_def)

lemma rhe_val_5: "round_half_even (14434388649443325 / 8796093022208) = 1641"
  by (rule round_half_even_near) simp

lemma rnd_val_15: "rnd (- (1641 / 100)) = Fin (- (4619004367821865 / 281474976710656))"
  using rnd_eval(2) [of 4 "1641 / 100" "- 48" 4619004367821865]
  by (simp add: pow2_def)

lemma rnd_val_16: "rnd 1 = Fin 1"
  using rnd_eval(1) [of 0 "1" "- 52" 4503599627370496]
  by (simp add: pow2_def)

lemma rnd_val_17: "rnd 25 = Fin 25"
  using rnd_eval(1) [of 4 "25" "- 48" 7036874417766400]
  by (simp add: pow2_def)

lemma rnd_val_18: "rnd (2501 / 100) = Fin (7039689167533507 / 281474976710656)"
  using rnd_eval(1) [of 4 "2501 / 100" "- 48" 7039689167533507]
  by (simp add: pow2_def)

lemma rnd_val_19: "rnd (7039689167533507 / 281474976710656) = Fin (7039689167533507 / 281474976710656)"
  using rnd_eval(1) [of 4 "7039689167533507 / 281474976710656" "- 48" 7039689167533507]
  by (simp add: pow2_def)

lemma rnd_val_20: "rnd (1 / 10) = Fin (3602879701896397 / 36028797018963968)"
  using rnd_eval(1) [of "- 4" "1 / 10" "- 56" 7205759403792794]
  by (simp add: pow2_def)

lemma rnd_val_21: "rnd 3 = Fin 3"
  using rnd_eval(1) [of 1 "3" "- 51" 6755399441055744]
  by (simp add: pow2_def)

lemma rnd_val_22_tie: "round_half_even (10808639105689191 / 2) = 5404319552844596"
  using round_half_even_tie [of "10808639105689191 / 2" 5404319552844595] by simp

lemma rnd_val_22: "rnd (10808639105689191 / 36028797018963968) = Fin (1351079888211149 / 4503599627370496)"
  using rnd_eval_tie(1) [of "- 2" "10808639105689191 / 36028797018963968" "- 54" 5404319552844596] rnd_val_22_tie
  by (simp add: pow2_def)

lemma rnd_val_23: "rnd (1351079888211149 / 4503599627370496) = Fin (1351079888211149 / 4503599627370496)"
  using rnd_eval(1) [of "- 2" "1351079888211149 / 4503599627370496" "- 54" 5404319552844596]
  by (simp add: pow2_def)

lemma rnd_val_24: "rnd (3 / 10) = Fin (5404319552844595 / 18014398509481984)"
  using rnd_eval(1) [of "- 2" "3 / 10" "- 54" 5404319552844595]
  by (simp add: pow2_def)

lemmas float_values =
  rnd_val_1 rnd_val_2 rnd_val_3 rnd_val_4 rnd_val_5 rnd_val_6
  rnd_val_7 rnd_val_8 rnd_val_9 rnd_val_10 rnd_val_11 rnd_val_12
  rnd_val_13 rnd_val_14 rnd_val_15 rnd_val_16 rnd_val_17 rnd_val_18
  rnd_val_19 rnd_val_20 rnd_val_21 rnd_val_22 rnd_val_23 rnd_val_24
  rhe_val_1 rhe_val_2 rhe_val_3 rhe_val_4 rhe_val_5


section \<open>Properties of the cart summary\<close>

lemma round_half_even_0 [simp]: "round_half_even 0 = 0"
  using round_half_even_of_int [of 0] by simp

lemma lit_0_07_value: "lit_0_07 = Fin (1261007895663739 / 18014398509481984)"
  by (simp add: lit_0_07_def float_values)

lemma lit_4_99_value: "lit_4_99 = Fin (2809120267572347 / 562949953421312)"
  by (simp add: lit_4_99_def float_values)

lemma round2_lit_0_0: "round2 lit_0_0 = Inr lit_0_0"
  by (simp add: round2_def lit_0_0_def signed_zero_def)

lemma round2_lit_4_99: "round2 lit_4_99 = Inr lit_4_99"
  by (simp add: round2_def lit_4_99_value float_values)

lemma round2_unrounded_shipping:
  "round2 (unrounded_shipping sub) = Inr (unrounded_shipping sub)"
  by (simp add: unrounded_shipping_def round2_lit_0_0 round2_lit_4_99)

lemma rnd_0 [simp]: "rnd 0 = Fin 0"
  by (simp add: rnd_def)

lemma int_to_float_0: "int_to_float 0 = Inr (Fin 0)"
  by (simp add: int_to_float_def)

lemma round2_zero: "round2 (Fin 0) = Inr (Fin 0)"
  by (simp add: round2_def signed_zero_def)

text \<open>On a well-formed float subtotal every statement after the sum returns.\<close>

lemma summary_of_float:
  assumes "wf d"
  shows "\<exists>tx tot fsub.
           round2 (fmul d lit_0_07) = Inr tx \<and>
           round2 (fadd (fadd d tx) (unrounded_shipping (PyFloat d))) = Inr tot \<and>
           round2 d = Inr fsub \<and>
           summary_of (PyFloat d) =
             Inr \<lparr>subtotal = fsub, tax = tx, shipping = unrounded_shipping (PyFloat d),
                  total = tot\<rparr>"
proof -
  obtain tx where tx: "round2 (fmul d lit_0_07) = Inr tx"
    using round2_total [OF fmul_wf] by blast
  obtain tot where tot:
    "round2 (fadd (fadd d tx) (unrounded_shipping (PyFloat d))) = Inr tot"
    using round2_total [OF fadd_wf] by blast
  obtain fsub where fsub: "round2 d = Inr fsub"
    using round2_total [OF assms] by blast
  have "summary_of (PyFloat d) =
      Inr \<lparr>subtotal = fsub, tax = tx, shipping = unrounded_shipping (PyFloat d), total = tot\<rparr>"
    by (simp add: summary_of_def Let_def bind_def num_mul_def num_add_def tx tot fsub
        round2_unrounded_shipping)
  with tx tot fsub show ?thesis by blast
qed


lemma fmul_zero_lit: "fmul (Fin 0) lit_0_07 = Fin 0"
  by (simp add: fmul_def lit_0_07_value signed_zero_def)

lemma fadd_zero_zero: "fadd (Fin 0) (Fin 0) = Fin 0"
  by (simp add: fadd_def)

lemma summary_of_empty:
  "summary_of (PyInt 0) = Inr \<lparr>subtotal = Fin 0, tax = Fin 0, shipping = Fin 0, total = Fin 0\<rparr>"
  by (simp add: summary_of_def Let_def bind_def num_mul_def num_add_def int_to_float_0
      unrounded_shipping_def lit_0_0_def fmul_zero_lit fadd_zero_zero round2_zero)

lemma compute_subtotal_cases:
  assumes "compute_subtotal items = Inr sub"
  shows "sub = PyInt 0 \<or> (\<exists>d. sub = PyFloat d \<and> wf d)"
proof -
  obtain ps where ps: "item_products items = Inr ps" "sub = py_sum ps"
    using assms by (cases "item_products items") (simp_all add: compute_subtotal_def)
  show ?thesis
  proof (cases ps)
    case Nil
    with ps show ?thesis by simp
  next
    case (Cons x xs)
    with ps py_sum_wf [of ps] show ?thesis by simp
  qed
qed


lemmas cart_defs =
  compute_cart_summary_def compute_subtotal_def item_product_def int_to_float_def

lemmas summary_defs =
  summary_of_def Let_def bind_def num_mul_def num_add_def unrounded_shipping_def
  float_eq_int_def float_gt_int_def lit_0_0_def lit_0_07_value lit_4_99_value

lemma subtotal_10_2:
  "compute_subtotal [\<lparr>item_id = ''p1'', name = ''apple'', price = Fin 10, qty = 2\<rparr>]
     = Inr (PyFloat (Fin 20))"
  by (simp add: cart_defs fmul_def fadd_def float_values)

lemma summary_of_20:
  "summary_of (PyFloat (Fin 20))
     = Inr \<lparr>subtotal = Fin 20, tax = rnd (14 / 10), shipping = rnd (499 / 100),
            total = rnd (2639 / 100)\<rparr>"
  by (simp add: summary_defs fmul_def fadd_def round2_def float_values)


text \<open>
  C7. For the cart with the single item of price 10 and quantity 2 the summary is
  subtotal 20.0, tax 1.4, shipping 4.99 and total 26.39 (each the float nearest to the
  decimal, as a float literal denotes it), and for the empty cart all four fields are 0.
\<close>

theorem cart_summary_examples:
  "compute_cart_summary [\<lparr>item_id = ''p1'', name = ''apple'', price = Fin 10, qty = 2\<rparr>]
     = Inr \<lparr>subtotal = Fin 20, tax = rnd (14 / 10), shipping = rnd (499 / 100),
            total = rnd (2639 / 100)\<rparr>
   \<and> compute_cart_summary []
     = Inr \<lparr>subtotal = Fin 0, tax = Fin 0, shipping = Fin 0, total = Fin 0\<rparr>"
proof
  show "compute_cart_summary
      [\<lparr>item_id = ''p1'', name = ''apple'', price = Fin 10, qty = 2\<rparr>]
     = Inr \<lparr>subtotal = Fin 20, tax = rnd (14 / 10), shipping = rnd (499 / 100),
            total = rnd (2639 / 100)\<rparr>"
    by (simp only: compute_cart_summary_def subtotal_10_2 summary_of_20 sum.case)
  have "compute_subtotal [] = Inr (PyInt 0)"
    by (simp add: compute_subtotal_def)
  then show "compute_cart_summary []
     = Inr \<lparr>subtotal = Fin 0, tax = Fin 0, shipping = Fin 0, total = Fin 0\<rparr>"
    by (simp only: compute_cart_summary_def summary_of_empty sum.case)
qed

text \<open>Whenever the subtotal is computed the operation returns, and the shipping field
  is the shipping chosen from the subtotal.\<close>

lemma cart_summary_returns:
  assumes "compute_subtotal items = Inr sub"
  shows "\<exists>r. compute_cart_summary items = Inr r \<and> shipping r = unrounded_shipping sub"
proof -
  have "\<exists>r. summary_of sub = Inr r \<and> shipping r = unrounded_shipping sub"
  proof -
    from compute_subtotal_cases [OF assms] consider "sub = PyInt 0"
      | d where "sub = PyFloat d" "wf d" by blast
    then show ?thesis
    proof cases
      case 1
      then show ?thesis
        by (simp add: summary_of_empty unrounded_shipping_def lit_0_0_def)
    next
      case 2
      from summary_of_float [OF 2(2)] 2(1) show ?thesis by auto
    qed
  qed
  then show ?thesis
    using assms by (simp add: compute_cart_summary_def)
qed

lemma subtotal_25:
  "compute_subtotal [\<lparr>item_id = ''p2'', name = ''rice'', price = Fin 25, qty = 1\<rparr>]
     = Inr (PyFloat (Fin 25))"
  by (simp add: cart_defs fmul_def fadd_def float_values)

lemma subtotal_25_01:
  "compute_subtotal [\<lparr>item_id = ''p3'', name = ''oil'', price = rnd (2501 / 100), qty = 1\<rparr>]
     = Inr (PyFloat (rnd (2501 / 100)))"
  by (simp add: cart_defs fmul_def fadd_def float_values)

text \<open>
  C1. Whenever the subtotal is computed, the operation returns and the shipping of the
  summary is 0.0 if the subtotal equals 0 or is greater than 25, and 4.99 (\<open>lit_4_99\<close>, the
  float of the literal) otherwise; a subtotal of exactly 25.0 gives 4.99 and the subtotal
  25.01 gives 0.0.
\<close>

theorem cart_shipping:
  assumes "compute_subtotal items = Inr sub"
  shows "\<exists>r. compute_cart_summary items = Inr r \<and>
           shipping r = (if num_eq_int sub 0 \<or> num_gt_int sub 25 then Fin 0 else lit_4_99) \<and>
           (sub = PyFloat (Fin 25) \<longrightarrow> shipping r = lit_4_99) \<and>
           (sub = PyFloat (rnd (2501 / 100)) \<longrightarrow> shipping r = Fin 0)"
proof -
  from cart_summary_returns [OF assms] obtain r where
    1: "compute_cart_summary items = Inr r" and r: "shipping r = unrounded_shipping sub"
    by blast
  have 2: "shipping r = (if num_eq_int sub 0 \<or> num_gt_int sub 25 then Fin 0 else lit_4_99)"
    by (simp add: r unrounded_shipping_def lit_0_0_def)
  have 3: "sub = PyFloat (Fin 25) \<longrightarrow> shipping r = lit_4_99"
    by (simp add: 2 float_eq_int_def float_gt_int_def)
  have 4: "sub = PyFloat (rnd (2501 / 100)) \<longrightarrow> shipping r = Fin 0"
    by (simp add: 2 float_eq_int_def float_gt_int_def float_values)
  from 1 2 3 4 show ?thesis by blast
qed

theorem cart_shipping_witness:
  "(\<exists>r. compute_cart_summary [\<lparr>item_id = ''p2'', name = ''rice'', price = Fin 25, qty = 1\<rparr>]
          = Inr r \<and> shipping r = lit_4_99)
   \<and> (\<exists>r. compute_cart_summary
          [\<lparr>item_id = ''p3'', name = ''oil'', price = rnd (2501 / 100), qty = 1\<rparr>]
          = Inr r \<and> shipping r = Fin 0)"
  using cart_shipping [OF subtotal_25] cart_shipping [OF subtotal_25_01]
  by blast


lemma subtotal_0_1_3:
  "compute_subtotal [\<lparr>item_id = ''p4'', name = ''candy'', price = rnd (1 / 10), qty = 3\<rparr>]
     = Inr (PyFloat (Fin (1351079888211149 / 4503599627370496)))"
  by (simp add: cart_defs fmul_def fadd_def float_values)




lemma subtotal_minus_20:
  "compute_subtotal [\<lparr>item_id = ''p5'', name = ''refund'', price = Fin (- 10), qty = 2\<rparr>]
     = Inr (PyFloat (Fin (- 20)))"
  by (simp add: cart_defs fmul_def fadd_def float_values)

lemma summary_of_minus_20:
  "summary_of (PyFloat (Fin (- 20)))
     = Inr \<lparr>subtotal = Fin (- 20), tax = rnd (- (14 / 10)), shipping = rnd (499 / 100),
            total = rnd (- (1641 / 100))\<rparr>"
  by (simp add: summary_defs fmul_def fadd_def round2_def float_values)

lemma int_to_float_overflow:
  "int_to_float (2 ^ 1024) = Inl (OverflowError ''int too large to convert to float'')"
proof -
  have "pow2 1024 \<le> of_int (2 ^ 1024)"
    by (simp add: pow2_def)
  then have "rnd (of_int (2 ^ 1024)) = PInf"
    by (rule rnd_overflow)
  then show ?thesis
    by (simp only: int_to_float_def double.case)
qed

text \<open>
  C9. The price is not constrained, but a cart whose exact subtotal is negative does not
  always succeed: a quantity too large for a float makes \<open>i.price * i.qty\<close> raise
  \<open>OverflowError\<close>. Whenever the subtotal is computed and is negative, the operation
  returns with shipping 4.99, and the total can be negative.
\<close>

theorem cart_negative_subtotal:
  assumes "compute_subtotal items = Inr sub" "num_lt_int sub 0"
  shows "\<exists>r. compute_cart_summary items = Inr r \<and> shipping r = lit_4_99"
proof -
  have "\<not> num_eq_int sub 0 \<and> \<not> num_gt_int sub 25"
  proof (cases sub)
    case (PyInt k)
    with assms(2) show ?thesis by simp
  next
    case (PyFloat d)
    with assms(2) show ?thesis
      by (cases d) (simp_all add: float_lt_int_def float_eq_int_def float_gt_int_def)
  qed
  then have "unrounded_shipping sub = lit_4_99"
    by (simp add: unrounded_shipping_def)
  with cart_summary_returns [OF assms(1)] show ?thesis by simp
qed

theorem cart_negative_subtotal_witness:
  "num_lt_int (PyFloat (Fin (- 20))) 0 \<and>
   compute_cart_summary [\<lparr>item_id = ''p5'', name = ''refund'', price = Fin (- 10), qty = 2\<rparr>]
     = Inr \<lparr>subtotal = Fin (- 20), tax = rnd (- (14 / 10)), shipping = lit_4_99,
            total = rnd (- (1641 / 100))\<rparr> \<and>
   float_lt_int (rnd (- (1641 / 100))) 0"
proof -
  have neg: "num_lt_int (PyFloat (Fin (- 20))) 0"
    by (simp add: float_lt_int_def)
  from cart_negative_subtotal [OF subtotal_minus_20 neg] obtain r where
    "compute_cart_summary
       [\<lparr>item_id = ''p5'', name = ''refund'', price = Fin (- 10), qty = 2\<rparr>] = Inr r"
    "shipping r = lit_4_99"
    by blast
  moreover have "compute_cart_summary
       [\<lparr>item_id = ''p5'', name = ''refund'', price = Fin (- 10), qty = 2\<rparr>]
     = Inr \<lparr>subtotal = Fin (- 20), tax = rnd (- (14 / 10)), shipping = rnd (499 / 100),
            total = rnd (- (1641 / 100))\<rparr>"
    by (simp only: compute_cart_summary_def subtotal_minus_20 summary_of_minus_20 sum.case)
  moreover have "float_lt_int (rnd (- (1641 / 100))) 0"
    by (simp add: float_lt_int_def float_values)
  ultimately show ?thesis
    using neg by (simp add: lit_4_99_def)
qed

text \<open>A cart with a negative exact subtotal on which the operation raises: the quantity
  \<open>2^1024\<close> has no float.\<close>

theorem cart_negative_overflow:
  "exact_subtotal [\<lparr>item_id = ''p6'', name = ''refund'', price = Fin (- 1), qty = 2 ^ 1024\<rparr>]
     = Some (- (2 ^ 1024))
   \<and> compute_cart_summary
       [\<lparr>item_id = ''p6'', name = ''refund'', price = Fin (- 1), qty = 2 ^ 1024\<rparr>]
     = Inl (OverflowError ''int too large to convert to float'')"
proof
  show "exact_subtotal
      [\<lparr>item_id = ''p6'', name = ''refund'', price = Fin (- 1), qty = 2 ^ 1024\<rparr>]
     = Some (- (2 ^ 1024))"
    by (simp add: item_value_def)
  have ip: "item_product
      \<lparr>item_id = ''p6'', name = ''refund'', price = Fin (- 1), qty = 2 ^ 1024\<rparr>
      = Inl (OverflowError ''int too large to convert to float'')"
    by (simp only: item_product_def CartItem.select_convs int_to_float_overflow sum.case)
  show "compute_cart_summary
       [\<lparr>item_id = ''p6'', name = ''refund'', price = Fin (- 1), qty = 2 ^ 1024\<rparr>]
     = Inl (OverflowError ''int too large to convert to float'')"
    by (simp only: compute_cart_summary_def compute_subtotal_def item_products.simps ip
        sum.case)
qed


text \<open>Rounding can also hide a negative exact subtotal: here the exact sum is negative while
  the float sum is 0.0, so the shipping is 0.0.\<close>

lemma rnd_minus_0_3:
  "rnd (- (1351079888211149 / 4503599627370496)) = Fin (- (1351079888211149 / 4503599627370496))"
  using rnd_exact_pos(2) [of 1351079888211149 "- 52"] by (simp add: pow2_def)

lemma summary_of_float_zero:
  "summary_of (PyFloat (Fin 0))
     = Inr \<lparr>subtotal = Fin 0, tax = Fin 0, shipping = Fin 0, total = Fin 0\<rparr>"
  by (simp add: summary_of_def Let_def bind_def num_mul_def num_add_def float_eq_int_def
      unrounded_shipping_def lit_0_0_def fmul_zero_lit fadd_zero_zero round2_zero)

lemma cart_exact_negative_float_zero:
  "exact_subtotal
     [\<lparr>item_id = ''p4'', name = ''candy'', price = rnd (1 / 10), qty = 3\<rparr>,
      \<lparr>item_id = ''p9'', name = ''refund'',
        price = Fin (- (1351079888211149 / 4503599627370496)), qty = 1\<rparr>]
     = Some (- (1 / 36028797018963968))
   \<and> compute_cart_summary
     [\<lparr>item_id = ''p4'', name = ''candy'', price = rnd (1 / 10), qty = 3\<rparr>,
      \<lparr>item_id = ''p9'', name = ''refund'',
        price = Fin (- (1351079888211149 / 4503599627370496)), qty = 1\<rparr>]
     = Inr \<lparr>subtotal = Fin 0, tax = Fin 0, shipping = Fin 0, total = Fin 0\<rparr>"
proof
  show "exact_subtotal
     [\<lparr>item_id = ''p4'', name = ''candy'', price = rnd (1 / 10), qty = 3\<rparr>,
      \<lparr>item_id = ''p9'', name = ''refund'',
        price = Fin (- (1351079888211149 / 4503599627370496)), qty = 1\<rparr>]
     = Some (- (1 / 36028797018963968))"
    by (simp add: item_value_def float_values)
  have "compute_subtotal
     [\<lparr>item_id = ''p4'', name = ''candy'', price = rnd (1 / 10), qty = 3\<rparr>,
      \<lparr>item_id = ''p9'', name = ''refund'',
        price = Fin (- (1351079888211149 / 4503599627370496)), qty = 1\<rparr>]
     = Inr (PyFloat (Fin 0))"
    by (simp add: cart_defs fmul_def fadd_def float_values rnd_minus_0_3)
  then show "compute_cart_summary
     [\<lparr>item_id = ''p4'', name = ''candy'', price = rnd (1 / 10), qty = 3\<rparr>,
      \<lparr>item_id = ''p9'', name = ''refund'',
        price = Fin (- (1351079888211149 / 4503599627370496)), qty = 1\<rparr>]
     = Inr \<lparr>subtotal = Fin 0, tax = Fin 0, shipping = Fin 0, total = Fin 0\<rparr>"
    by (simp only: compute_cart_summary_def summary_of_float_zero sum.case)
qed

subsection \<open>The subtotal and the exact sum\<close>

lemma representable_rnd: "representable r \<Longrightarrow> rnd r = Fin r"
  by (simp add: representable_def)

lemma item_product_exact:
  assumes "exact_item i" "item_value i = Some v"
  shows "\<exists>d. item_product i = Inr d \<and> finite_val d = Some v"
proof -
  obtain p where p: "finite_val (price i) = Some p"
    using assms(2) by (cases "finite_val (price i)") (simp_all add: item_value_def)
  have v: "v = p * of_int (qty i)"
    using assms(2) p by (simp add: item_value_def)
  have rq: "rnd (of_int (qty i)) = Fin (of_int (qty i))"
    and rp: "rnd (p * of_int (qty i)) = Fin (p * of_int (qty i))"
    using assms(1) p by (simp_all add: exact_item_def representable_def)
  have q: "int_to_float (qty i) = Inr (Fin (of_int (qty i)))"
    by (simp add: int_to_float_def rq)
  have nn: "price i \<noteq> NaN" using p by auto
  have "finite_val (fmul (price i) (Fin (of_int (qty i)))) = Some (p * of_int (qty i))"
  proof (cases "p = 0 \<or> qty i = 0")
    case True
    then show ?thesis
      using nn p by (auto simp: fmul_def signed_zero_def)
  next
    case False
    then show ?thesis
      using nn p by (simp add: fmul_def rp)
  qed
  then show ?thesis
    by (simp add: item_product_def q v)
qed

lemma fadd_exact:
  assumes "finite_val a = Some x" "finite_val b = Some y" "representable (x + y)"
  shows "finite_val (fadd a b) = Some (x + y)"
proof -
  have nn: "a \<noteq> NaN" "b \<noteq> NaN" using assms(1,2) by auto
  show ?thesis
  proof (cases "a = NegZero \<and> b = NegZero")
    case True
    with assms(1,2) show ?thesis by (auto simp: fadd_def)
  next
    case False
    then have "fadd a b = rnd (x + y)"
      using nn assms(1,2) by (auto simp: fadd_def)
    then show ?thesis
      using assms(3) by (simp add: representable_rnd)
  qed
qed

lemma foldl_fadd_exact:
  assumes "exact_sums acc items" "finite_val a = Some acc"
  shows "\<exists>ps s. item_products items = Inr ps \<and> exact_subtotal items = Some s \<and>
           finite_val (foldl fadd a ps) = Some (acc + s)"
  using assms
proof (induction items arbitrary: acc a)
  case Nil
  then show ?case by simp
next
  case (Cons i items)
  from Cons.prems(1) obtain v where v: "item_value i = Some v"
    and ei: "exact_item i" and rs: "representable (acc + v)"
    and rest: "exact_sums (acc + v) items"
    by (cases "item_value i") simp_all
  from item_product_exact [OF ei v] obtain d where
    d: "item_product i = Inr d" "finite_val d = Some v" by blast
  have fa: "finite_val (fadd a d) = Some (acc + v)"
    using Cons.prems(2) d(2) rs by (rule fadd_exact)
  from Cons.IH [OF rest fa] obtain ps s where
    ps: "item_products items = Inr ps" "exact_subtotal items = Some s"
      "finite_val (foldl fadd (fadd a d) ps) = Some (acc + v + s)"
    by blast
  have "item_products (i # items) = Inr (d # ps)"
    by (simp add: d(1) ps(1))
  moreover have "exact_subtotal (i # items) = Some (v + s)"
    by (simp add: v ps(2))
  moreover have "finite_val (foldl fadd a (d # ps)) = Some (acc + (v + s))"
    using ps(3) by (simp add: add.assoc)
  ultimately show ?case by blast
qed

lemma py_sum_foldl: "ps \<noteq> [] \<Longrightarrow> py_sum ps = PyFloat (foldl fadd (Fin 0) ps)"
  by (cases ps) simp_all

lemma representable_examples:
  "representable 3" "representable 2" "representable (1 / 2)" "representable (3 / 2)"
  using rnd_exact_pos(1) [of 3 0] rnd_exact_pos(1) [of 2 0] rnd_exact_pos(1) [of 1 "- 1"]
    rnd_exact_pos(1) [of 3 "- 1"]
  by (simp_all add: representable_def pow2_def)

text \<open>
  C3. The subtotal is computed in float arithmetic, so it is not the exact sum of the
  products in general: \<open>0.1 * 3\<close> is \<open>0.30000000000000004\<close>. When every quantity, every
  product and every partial sum is a binary64 value, the subtotal is the exact sum
  \<open>\<Sum> price_i \<times> qty_i\<close>; for the empty list the subtotal is the \<open>int\<close> 0.
\<close>

theorem subtotal_exact_sum:
  assumes "exact_sums 0 items"
  shows "subtotal_value items = exact_subtotal items \<and> compute_subtotal [] = Inr (PyInt 0)"
proof -
  have e: "compute_subtotal [] = Inr (PyInt 0)"
    by (simp add: compute_subtotal_def)
  have "subtotal_value items = exact_subtotal items"
  proof (cases items)
    case Nil
    then show ?thesis by (simp add: subtotal_value_def e)
  next
    case (Cons i rest)
    have z: "finite_val (Fin 0) = Some 0" by simp
    from foldl_fadd_exact [OF assms z] obtain ps s where
      ps: "item_products items = Inr ps" "exact_subtotal items = Some s"
        "finite_val (foldl fadd (Fin 0) ps) = Some (0 + s)"
      by blast
    have "ps \<noteq> []"
      using ps(1) Cons by (auto split: sum.splits)
    then have "compute_subtotal items = Inr (PyFloat (foldl fadd (Fin 0) ps))"
      by (simp add: compute_subtotal_def ps(1) py_sum_foldl)
    then show ?thesis
      by (simp add: subtotal_value_def ps(2,3))
  qed
  with e show ?thesis by simp
qed

theorem subtotal_exact_sum_witness:
  "exact_sums 0
     [\<lparr>item_id = ''p7'', name = ''gum'', price = Fin (1 / 2), qty = 3\<rparr>,
      \<lparr>item_id = ''p8'', name = ''mint'', price = Fin (1 / 4), qty = 2\<rparr>]
   \<and> subtotal_value
     [\<lparr>item_id = ''p7'', name = ''gum'', price = Fin (1 / 2), qty = 3\<rparr>,
      \<lparr>item_id = ''p8'', name = ''mint'', price = Fin (1 / 4), qty = 2\<rparr>] = Some 2"
proof -
  have ex: "exact_sums 0
     [\<lparr>item_id = ''p7'', name = ''gum'', price = Fin (1 / 2), qty = 3\<rparr>,
      \<lparr>item_id = ''p8'', name = ''mint'', price = Fin (1 / 4), qty = 2\<rparr>]"
    by (simp add: item_value_def exact_item_def representable_examples)
  from subtotal_exact_sum [OF ex] show ?thesis
    using ex by (simp add: item_value_def)
qed

text \<open>One item of price 0.1 and quantity 3: the computed subtotal is not the exact
  product.\<close>

theorem subtotal_not_exact_sum:
  "subtotal_value [\<lparr>item_id = ''p4'', name = ''candy'', price = rnd (1 / 10), qty = 3\<rparr>]
     \<noteq> exact_subtotal [\<lparr>item_id = ''p4'', name = ''candy'', price = rnd (1 / 10), qty = 3\<rparr>]"
proof -
  have "subtotal_value [\<lparr>item_id = ''p4'', name = ''candy'', price = rnd (1 / 10), qty = 3\<rparr>]
      = Some (1351079888211149 / 4503599627370496)"
    by (simp add: subtotal_value_def subtotal_0_1_3)
  moreover have
    "exact_subtotal [\<lparr>item_id = ''p4'', name = ''candy'', price = rnd (1 / 10), qty = 3\<rparr>]
      = Some (10808639105689191 / 36028797018963968)"
    by (simp add: item_value_def float_values)
  ultimately show ?thesis by simp
qed

end
